theory Spec2Isabelle
  imports Complex_Main
begin

section \<open>Progress Tracker: the stage sequence of ProcessingPage\<close>

text \<open>
  The polling version of \<^verbatim>\<open>ProcessingPage\<close> keeps a list of seven stages. A stage
  is the interface \<^verbatim>\<open>ProcessingStep\<close>; its \<^verbatim>\<open>status\<close> is one of three string
  literals, modelled as a datatype.
\<close>

datatype StepStatus = Pending | Processing | Completed

record ProcessingStep =
  title :: string
  description :: string
  status :: StepStatus

text \<open>
  The constant \<^verbatim>\<open>steps\<close> of the component. The last description holds an em dash
  (U+2014), written here as its three UTF-8 bytes.
\<close>

definition steps :: "ProcessingStep list" where
  "steps =
    [\<lparr>title = ''Understanding Format'',
      description = ''Inferring layout structure (tabular vs freeform)'',
      status = Pending\<rparr>,
     \<lparr>title = ''Transaction Extraction'',
      description = ''Pulling financial activity with LlamaParse'',
      status = Pending\<rparr>,
     \<lparr>title = ''Currency Mapping'',
      description = ''Recognizing symbols, formats, and normalization'',
      status = Pending\<rparr>,
     \<lparr>title = ''Data Integrity Checks'',
      description = ''Identifying gaps, misalignments, and duplications'',
      status = Pending\<rparr>,
     \<lparr>title = ''Financial Analysis'',
      description = ''Detecting trends, volatility, and balance health'',
      status = Pending\<rparr>,
     \<lparr>title = ''Insight Generation'',
      description = ''Mapping findings to risk and reliability metrics'',
      status = Pending\<rparr>,
     \<lparr>title = ''Report Ready'',
      description =
        ''Summary generated '' @ [CHR 0xE2, CHR 0x80, CHR 0x94] @ '' ready for review'',
      status = Pending\<rparr>]"

text \<open>
  The updater handed to \<^verbatim>\<open>setProcessedSteps\<close> in \<^verbatim>\<open>pollProgress\<close>:
  \<^verbatim>\<open>prev.map((stepObj, idx) => ({...stepObj, status: idx < step ? 'completed'
  : idx === step ? 'processing' : 'pending'}))\<close>. The step count of the status
  response is an integer; the index is a natural number.
\<close>

definition updateSteps :: "int \<Rightarrow> ProcessingStep list \<Rightarrow> ProcessingStep list" where
  "updateSteps step prev =
     map (\<lambda>(idx, stepObj).
            stepObj\<lparr>status :=
              (if int idx < step then Completed
               else if int idx = step then Processing
               else Pending)\<rparr>)
         (enumerate 0 prev)"

section \<open>The analysis payload\<close>

text \<open>
  The interface \<^verbatim>\<open>GeminiResult\<close> of \<^verbatim>\<open>ResultsPage.tsx\<close>. A number of the payload
  is taken to be a finite IEEE double (JSON has no literal for an infinity or \<^verbatim>\<open>NaN\<close>),
  modelled by the rational it denotes;
  what arithmetic makes of such numbers is modelled in the section on JavaScript numbers
  below. A field that may be absent from the payload is an option, \<open>None\<close> being
  \<^verbatim>\<open>undefined\<close>. An object used as a mapping (\<^verbatim>\<open>Record<string, ...>\<close>) is the list of
  its entries in the order of \<^verbatim>\<open>Object.entries\<close>. The fields the page never reads
  (\<^verbatim>\<open>parsed_text\<close>, \<^verbatim>\<open>transactions\<close>, \<^verbatim>\<open>normalized_data\<close>, \<^verbatim>\<open>status\<close>) are left
  out. The \<^verbatim>\<open>debt_to_income\<close> of a monthly flow is named \<open>monthly_debt_to_income\<close>,
  field names being global here.
\<close>

record MonthlyFlow =
  deposits :: rat
  withdrawals :: rat
  end_balance :: rat
  monthly_debt_to_income :: rat

record AnalysisSummary =
  total_deposits :: "rat option"
  total_withdrawals :: "rat option"
  net_cash_flow :: "rat option"
  debt_to_income :: "rat option"
  monthly_flows :: "(string \<times> MonthlyFlow) list option"

record DataIssue =
  reason :: string
  transaction :: string

record GeminiResult =
  session_id :: "string option"
  loan_amount_requested :: "rat option"
  analysis_summary :: "AnalysisSummary option"
  loan_score :: "rat option"
  summary_paragraph :: "string option"
  spending_by_category :: "(string \<times> rat) list option"
  data_issues :: "DataIssue list option"

section \<open>Progress Tracker: the polling effect\<close>

text \<open>
  The state the effect of \<^verbatim>\<open>ProcessingPage\<close> works on: the component state
  (\<^verbatim>\<open>currentStep\<close>, \<^verbatim>\<open>processedSteps\<close>, \<^verbatim>\<open>finalResult\<close>), the two variables of the
  effect's closure (\<^verbatim>\<open>isMounted\<close>, and \<^verbatim>\<open>pollInterval\<close> as whether the interval timer
  is armed), the calls of \<^verbatim>\<open>navigate\<close> made so far, the number of calls of
  \<^verbatim>\<open>pollProgress\<close> suspended at the \<^verbatim>\<open>/progress\<close> request and at the \<^verbatim>\<open>/results\<close>
  request, and the number of requests of each kind issued so far.
\<close>

record Tracker =
  isMounted :: bool
  pollInterval :: bool
  currentStep :: int
  processedSteps :: "ProcessingStep list"
  finalResult :: "GeminiResult option"
  navigations :: "string list"
  pendingProgress :: nat
  pendingResults :: nat
  progressFetches :: nat
  resultsFetches :: nat

definition initial :: Tracker where
  "initial =
     \<lparr>isMounted = False, pollInterval = False, currentStep = 0,
      processedSteps = steps, finalResult = None, navigations = [],
      pendingProgress = 0, pendingResults = 0, progressFetches = 0, resultsFetches = 0\<rparr>"

text \<open>
  A call of \<^verbatim>\<open>pollProgress\<close> runs to its first \<^verbatim>\<open>await\<close>: it issues the request to
  \<^verbatim>\<open>/progress\<close> and suspends.
\<close>

definition pollProgress :: "Tracker \<Rightarrow> Tracker" where
  "pollProgress s =
     s\<lparr>pendingProgress := pendingProgress s + 1, progressFetches := progressFetches s + 1\<rparr>"

text \<open>
  The body of the effect: without a session id it navigates to \<^verbatim>\<open>'/'\<close> and returns;
  otherwise it sets \<^verbatim>\<open>isMounted\<close>, arms the interval timer and calls
  \<^verbatim>\<open>pollProgress\<close> once at once.
\<close>

definition mount :: "string \<Rightarrow> Tracker \<Rightarrow> Tracker" where
  "mount sid s =
     (if sid = [] then s\<lparr>navigations := navigations s @ [''/'']\<rparr>
      else pollProgress (s\<lparr>isMounted := True, pollInterval := True\<rparr>))"

text \<open>
  What can happen next: the timer fires, a suspended call of \<^verbatim>\<open>pollProgress\<close> is resumed
  by the answer to its request (a step count, the payload, or a failure: a response that
  is not ok, a network error or a body that does not parse), or the cleanup of the effect
  runs.
\<close>

datatype event =
    Tick
  | ProgressOk int
  | ProgressFailed
  | ResultsOk GeminiResult
  | ResultsFailed
  | Cleanup

fun enabled :: "event \<Rightarrow> Tracker \<Rightarrow> bool" where
  "enabled Tick s = pollInterval s"
| "enabled (ProgressOk step) s = (0 < pendingProgress s)"
| "enabled ProgressFailed s = (0 < pendingProgress s)"
| "enabled (ResultsOk r) s = (0 < pendingResults s)"
| "enabled ResultsFailed s = (0 < pendingResults s)"
| "enabled Cleanup s = isMounted s"

text \<open>
  The continuation of \<^verbatim>\<open>pollProgress\<close> after each \<^verbatim>\<open>await\<close>, with its \<^verbatim>\<open>catch\<close>
  block, and the cleanup function. The test \<^verbatim>\<open>step >= processedSteps.length\<close> reads
  the list the effect closed over; the effect runs again when that length changes, and
  \<^const>\<open>updateSteps\<close> keeps it, so it is the length of the current list.
\<close>

fun handle :: "event \<Rightarrow> Tracker \<Rightarrow> Tracker" where
  "handle Tick s = pollProgress s"
| "handle (ProgressOk step) s =
     (let s1 = s\<lparr>pendingProgress := pendingProgress s - 1\<rparr> in
      if \<not> isMounted s1 then s1
      else
        let s2 = s1\<lparr>currentStep := step,
                    processedSteps := updateSteps step (processedSteps s1)\<rparr> in
        if step \<ge> int (length (processedSteps s)) then
          s2\<lparr>pollInterval := False,
             pendingResults := pendingResults s2 + 1,
             resultsFetches := resultsFetches s2 + 1\<rparr>
        else s2)"
| "handle ProgressFailed s =
     (let s1 = s\<lparr>pendingProgress := pendingProgress s - 1\<rparr> in
      if \<not> isMounted s1 then s1 else s1\<lparr>pollInterval := False\<rparr>)"
| "handle (ResultsOk r) s =
     (let s1 = s\<lparr>pendingResults := pendingResults s - 1\<rparr> in
      if \<not> isMounted s1 then s1 else s1\<lparr>finalResult := Some r\<rparr>)"
| "handle ResultsFailed s =
     (let s1 = s\<lparr>pendingResults := pendingResults s - 1\<rparr> in
      if \<not> isMounted s1 then s1 else s1\<lparr>pollInterval := False\<rparr>)"
| "handle Cleanup s = s\<lparr>isMounted := False, pollInterval := False\<rparr>"

text \<open>
  An execution is a list of events, each enabled when it happens; \<open>None\<close> when the list
  is not an execution.
\<close>

fun run :: "event list \<Rightarrow> Tracker \<Rightarrow> Tracker option" where
  "run [] s = Some s"
| "run (e # es) s = (if enabled e s then run es (handle e s) else None)"

text \<open>
  For stating how often the result is requested: the number of status responses with a
  step count of at least \<open>n\<close> in a list of events, up to the first cleanup.
\<close>

fun laterCompletions :: "int \<Rightarrow> event list \<Rightarrow> nat" where
  "laterCompletions n [] = 0"
| "laterCompletions n (Cleanup # es) = 0"
| "laterCompletions n (ProgressOk k # es) =
     (if n \<le> k then 1 else 0) + laterCompletions n es"
| "laterCompletions n (e # es) = laterCompletions n es"

section \<open>JavaScript numbers\<close>

text \<open>
  A JavaScript number is an IEEE-754 binary64 value: a finite double (the rational it
  denotes), an infinity or \<^verbatim>\<open>NaN\<close>. The sign of a zero is not modelled; it shows only in
  a division by zero, which the page never makes.
\<close>

datatype number = Finite rat | PosInf | NegInf | NaN

text \<open>
  The binary exponent of a positive rational \<open>a\<close>, the \<open>e\<close> with \<open>2\<^sup>e \<le> a < 2\<^sup>e\<^sup>+\<^sup>1\<close>: by
  halving from above 2, by doubling from below 1.
\<close>

function halvings :: "rat \<Rightarrow> int" where
  "halvings a = (if 2 \<le> a then halvings (a / 2) + 1 else 0)"
  by pat_completeness auto
termination
proof (relation "measure (\<lambda>a. nat \<lfloor>a\<rfloor>)")
  show "wf (measure (\<lambda>a::rat. nat \<lfloor>a\<rfloor>))" by simp
next
  fix a :: rat
  assume "2 \<le> a"
  then have "\<lfloor>a / 2\<rfloor> < \<lfloor>a\<rfloor>" and "0 < \<lfloor>a\<rfloor>" by linarith+
  then show "(a / 2, a) \<in> measure (\<lambda>a. nat \<lfloor>a\<rfloor>)" by simp
qed

function doublings :: "rat \<Rightarrow> int" where
  "doublings a = (if 0 < a \<and> a < 1 then doublings (a * 2) - 1 else 0)"
  by pat_completeness auto
termination
proof (relation "measure (\<lambda>a. nat \<lceil>1 / a\<rceil>)")
  show "wf (measure (\<lambda>a::rat. nat \<lceil>1 / a\<rceil>))" by simp
next
  fix a :: rat
  assume a: "0 < a \<and> a < 1"
  obtain y where y: "y = 1 / a" by simp
  from a have "1 < y" unfolding y by simp
  then have c: "2 \<le> \<lceil>y\<rceil>" by linarith
  have yc: "y \<le> of_int \<lceil>y\<rceil>" by linarith
  from c have c': "(2::rat) \<le> of_int \<lceil>y\<rceil>"
    by (metis of_int_le_iff of_int_numeral)
  from yc c' have "y / 2 \<le> of_int \<lceil>y\<rceil> - 1" by linarith
  then have "y / 2 \<le> of_int (\<lceil>y\<rceil> - 1)" by simp
  then have "\<lceil>y / 2\<rceil> \<le> \<lceil>y\<rceil> - 1" by (simp only: ceiling_le_iff)
  with c have "nat \<lceil>y / 2\<rceil> < nat \<lceil>y\<rceil>" by linarith
  moreover have "1 / (a * 2) = y / 2" unfolding y by simp
  ultimately have "nat \<lceil>1 / (a * 2)\<rceil> < nat \<lceil>1 / a\<rceil>" unfolding y by (simp only:)
  then show "(a * 2, a) \<in> measure (\<lambda>a. nat \<lceil>1 / a\<rceil>)"
    by simp
qed

declare halvings.simps [simp del] doublings.simps [simp del]

definition expo :: "rat \<Rightarrow> int" where
  "expo a = (if 1 \<le> a then halvings a else doublings a)"

text \<open>The nearest integer, the even one on a tie.\<close>

definition roundHalfEven :: "rat \<Rightarrow> int" where
  "roundHalfEven y =
     (let f = \<lfloor>y\<rfloor>; r = y - of_int f in
      if r < 1 / 2 then f else if 1 / 2 < r then f + 1 else if even f then f else f + 1)"

text \<open>
  The rounding of an exact result to a double, in the default mode (to nearest, ties to
  even): the unit in the last place is \<open>2\<^sup>e\<^sup>-\<^sup>5\<^sup>2\<close> for the exponent \<open>e\<close> of the result, at
  least \<open>-1022\<close> (the subnormal range), and a rounded magnitude of \<open>2\<^sup>1\<^sup>0\<^sup>2\<^sup>4\<close> or more is an
  infinity.
\<close>

definition fl :: "rat \<Rightarrow> number" where
  "fl x =
     (if x = 0 then Finite 0
      else
        let a = \<bar>x\<bar>;
            e = max (expo a) (- 1022);
            u = 2 powi (e - 52);
            r = of_int (roundHalfEven (a / u)) * u
        in if 2 ^ 1024 \<le> r then (if x < 0 then NegInf else PosInf)
           else Finite (if x < 0 then - r else r))"

text \<open>
  The operators \<^verbatim>\<open>*\<close>, \<^verbatim>\<open>/\<close> and \<^verbatim>\<open>+\<close>: on finite operands the exact result rounded, on
  the others the rules of IEEE-754. A zero divisor is taken as \<open>+0\<close>.
\<close>

fun js_times :: "number \<Rightarrow> number \<Rightarrow> number" where
  "js_times (Finite a) (Finite b) = fl (a * b)"
| "js_times NaN y = NaN"
| "js_times x NaN = NaN"
| "js_times (Finite a) PosInf = (if a = 0 then NaN else if 0 < a then PosInf else NegInf)"
| "js_times (Finite a) NegInf = (if a = 0 then NaN else if 0 < a then NegInf else PosInf)"
| "js_times PosInf (Finite b) = (if b = 0 then NaN else if 0 < b then PosInf else NegInf)"
| "js_times NegInf (Finite b) = (if b = 0 then NaN else if 0 < b then NegInf else PosInf)"
| "js_times PosInf PosInf = PosInf"
| "js_times PosInf NegInf = NegInf"
| "js_times NegInf PosInf = NegInf"
| "js_times NegInf NegInf = PosInf"

fun js_divide :: "number \<Rightarrow> number \<Rightarrow> number" where
  "js_divide (Finite a) (Finite b) =
     (if b = 0 then (if a = 0 then NaN else if 0 < a then PosInf else NegInf)
      else fl (a / b))"
| "js_divide NaN y = NaN"
| "js_divide x NaN = NaN"
| "js_divide (Finite a) PosInf = Finite 0"
| "js_divide (Finite a) NegInf = Finite 0"
| "js_divide PosInf (Finite b) = (if b < 0 then NegInf else PosInf)"
| "js_divide NegInf (Finite b) = (if b < 0 then PosInf else NegInf)"
| "js_divide PosInf PosInf = NaN"
| "js_divide PosInf NegInf = NaN"
| "js_divide NegInf PosInf = NaN"
| "js_divide NegInf NegInf = NaN"

fun js_plus :: "number \<Rightarrow> number \<Rightarrow> number" where
  "js_plus (Finite a) (Finite b) = fl (a + b)"
| "js_plus NaN y = NaN"
| "js_plus x NaN = NaN"
| "js_plus PosInf NegInf = NaN"
| "js_plus NegInf PosInf = NaN"
| "js_plus PosInf y = PosInf"
| "js_plus x PosInf = PosInf"
| "js_plus NegInf y = NegInf"
| "js_plus x NegInf = NegInf"

text \<open>The comparison \<^verbatim>\<open><=\<close>, false whenever an operand is \<^verbatim>\<open>NaN\<close>, and truthiness.\<close>

fun js_le :: "number \<Rightarrow> number \<Rightarrow> bool" where
  "js_le (Finite a) (Finite b) = (a \<le> b)"
| "js_le NaN y = False"
| "js_le x NaN = False"
| "js_le NegInf y = True"
| "js_le x PosInf = True"
| "js_le PosInf y = False"
| "js_le x NegInf = False"

fun truthy :: "number \<Rightarrow> bool" where
  "truthy (Finite a) = (a \<noteq> 0)"
| "truthy PosInf = True"
| "truthy NegInf = True"
| "truthy NaN = False"

section \<open>Result Projector: the derivations of ResultsPage\<close>

text \<open>
  \<^verbatim>\<open>x.toFixed(1)\<close>, as the number its string denotes. For a finite \<open>x\<close> below \<open>10\<^sup>2\<^sup>1\<close> in
  magnitude the string has one decimal: the integer \<open>n\<close> of tenths nearest to \<open>|x|\<close>, the
  larger one on a tie, with the sign of \<open>x\<close>. From \<open>10\<^sup>2\<^sup>1\<close> on, and for the infinities and
  \<^verbatim>\<open>NaN\<close>, it is the string of the number itself. \<^verbatim>\<open>parseFloat\<close> reads such a string
  back: the double nearest to the decimal. \<^verbatim>\<open>Math.round(x)\<close> is the nearest integer,
  the one towards plus infinity on a tie.
\<close>

fun toFixed1 :: "number \<Rightarrow> number" where
  "toFixed1 (Finite x) =
     (if 10 ^ 21 \<le> \<bar>x\<bar> then Finite x
      else if x < 0 then Finite (- (of_int \<lfloor>(- x) * 10 + 1 / 2\<rfloor> / 10))
      else Finite (of_int \<lfloor>x * 10 + 1 / 2\<rfloor> / 10))"
| "toFixed1 PosInf = PosInf"
| "toFixed1 NegInf = NegInf"
| "toFixed1 NaN = NaN"

fun parseFloat :: "number \<Rightarrow> number" where
  "parseFloat (Finite x) = fl x"
| "parseFloat PosInf = PosInf"
| "parseFloat NegInf = NegInf"
| "parseFloat NaN = NaN"

fun Math_round :: "number \<Rightarrow> number" where
  "Math_round (Finite x) = Finite (of_int \<lfloor>x + 1 / 2\<rfloor>)"
| "Math_round PosInf = PosInf"
| "Math_round NegInf = NegInf"
| "Math_round NaN = NaN"

text \<open>The objects \<^verbatim>\<open>{label, color}\<close> returned by the two bucketing functions.\<close>

record Badge =
  label :: string
  color :: string

definition dtiRatio :: "rat \<Rightarrow> number" where
  "dtiRatio debt_to_income' = toFixed1 (js_times (Finite debt_to_income') (Finite 100))"

definition getDtiRisk :: "number \<Rightarrow> Badge" where
  "getDtiRisk ratio =
     (if js_le ratio (Finite 28) then \<lparr>label = ''Low risk'', color = ''text-emerald-600''\<rparr>
      else if js_le ratio (Finite 36) then
        \<lparr>label = ''Moderate risk'', color = ''text-yellow-600''\<rparr>
      else \<lparr>label = ''High risk'', color = ''text-red-600''\<rparr>)"

definition getLoanVerdict :: "rat \<Rightarrow> Badge" where
  "getLoanVerdict score =
     (if score \<ge> 80 then \<lparr>label = ''Likely Approved'', color = ''text-emerald-600''\<rparr>
      else if score \<ge> 60 then \<lparr>label = ''Requires Review'', color = ''text-yellow-600''\<rparr>
      else \<lparr>label = ''High Risk'', color = ''text-red-600''\<rparr>)"

text \<open>\<^verbatim>\<open>entries.slice(-6)\<close>: the entries from index \<open>max (length - 6) 0\<close> on.\<close>

definition last6 :: "'a list \<Rightarrow> 'a list" where
  "last6 entries = drop (length entries - 6) entries"

text \<open>The points of the two charts and the slices of the pie.\<close>

record MonthlyDatum =
  month :: string
  bar_deposits :: rat
  bar_withdrawals :: rat

record BalanceDatum =
  balance_month :: string
  balance :: rat

record SpendingDatum =
  category :: string
  percent :: rat
  amount :: number

definition monthlyData :: "(string \<times> MonthlyFlow) list \<Rightarrow> MonthlyDatum list" where
  "monthlyData l6 =
     map (\<lambda>(m, f). \<lparr>month = m, bar_deposits = deposits f, bar_withdrawals = withdrawals f\<rparr>) l6"

definition balanceData :: "(string \<times> MonthlyFlow) list \<Rightarrow> BalanceDatum list" where
  "balanceData l6 = map (\<lambda>(m, f). \<lparr>balance_month = m, balance = end_balance f\<rparr>) l6"

definition spendingData :: "(string \<times> rat) list \<Rightarrow> rat \<Rightarrow> SpendingDatum list" where
  "spendingData pct total_withdrawals' =
     map (\<lambda>(c, v). \<lparr>category = c, percent = v,
                     amount =
                       Math_round
                         (js_times (js_divide (Finite v) (Finite 100))
                            (Finite total_withdrawals'))\<rparr>) pct"

text \<open>
  The caption under the net cash flow: the marker of two en dashes when the net cash
  flow is zero, otherwise the text \<^verbatim>\<open>" X% of total activity"\<close> for the number \<open>X\<close> that
  \<^verbatim>\<open>toFixed(1)\<close> prints. The denominator is
  \<^verbatim>\<open>total_deposits + total_withdrawals || 1\<close>.
\<close>

datatype Caption = NoDataMarker | PercentOfActivity number

definition netDenominator :: "rat \<Rightarrow> rat \<Rightarrow> number" where
  "netDenominator td tw =
     (let total = js_plus (Finite td) (Finite tw) in
      if truthy total then total else Finite 1)"

definition netCaption :: "rat \<Rightarrow> rat \<Rightarrow> rat \<Rightarrow> Caption" where
  "netCaption net td tw =
     (if net = 0 then NoDataMarker
      else PercentOfActivity
             (toFixed1
                (js_times (js_divide (Finite net) (netDenominator td tw)) (Finite 100))))"

text \<open>
  What the page hands to its markup. The table of flagged statements has one row for
  each issue; the empty list is rendered as the text "No flagged statements found".
\<close>

record DerivedView =
  view_loan_score :: rat
  view_loanVerdict :: Badge
  view_net_cash_flow :: rat
  view_total_deposits :: rat
  view_total_withdrawals :: rat
  view_netCaption :: Caption
  view_dtiRatio :: number
  view_dtiRisk :: Badge
  view_monthlyData :: "MonthlyDatum list"
  view_balanceData :: "BalanceDatum list"
  view_spendingData :: "SpendingDatum list"
  view_issues :: "DataIssue list"

datatype js_error = TypeError

text \<open>A destructuring default: the default when the field is \<^verbatim>\<open>undefined\<close>.\<close>

definition orDefault :: "'a \<Rightarrow> 'a option \<Rightarrow> 'a" where
  "orDefault d x = (case x of None \<Rightarrow> d | Some v \<Rightarrow> v)"

text \<open>The default object for \<^verbatim>\<open>analysis_summary\<close> in the destructuring pattern.\<close>

definition defaultSummary :: AnalysisSummary where
  "defaultSummary =
     \<lparr>total_deposits = Some 0, total_withdrawals = Some 0, net_cash_flow = Some 0,
      debt_to_income = Some 0, monthly_flows = None\<rparr>"

text \<open>
  The component function up to its markup. The argument is \<^verbatim>\<open>location.state\<close>
  (\<open>None\<close> when there is none). Without a session id the page navigates to \<^verbatim>\<open>'/'\<close> and
  returns \<^verbatim>\<open>null\<close> (\<open>Inr None\<close>). The destructuring takes its defaults; then
  \<^verbatim>\<open>finalResult.analysis_summary.monthly_flows || {}\<close> reads a property of
  \<^verbatim>\<open>finalResult.analysis_summary\<close> itself, which throws a \<^verbatim>\<open>TypeError\<close> when that is
  \<^verbatim>\<open>undefined\<close>.
\<close>

definition ResultsPage :: "GeminiResult option \<Rightarrow> js_error + DerivedView option" where
  "ResultsPage state =
     (case state of
        None \<Rightarrow> Inr None
      | Some finalResult' \<Rightarrow>
          if orDefault [] (session_id finalResult') = [] then Inr None
          else
            let loan_score' = orDefault 0 (loan_score finalResult');
                analysis_summary' = orDefault defaultSummary (analysis_summary finalResult');
                data_issues' = orDefault [] (data_issues finalResult');
                total_deposits' = orDefault 0 (total_deposits analysis_summary');
                total_withdrawals' = orDefault 0 (total_withdrawals analysis_summary');
                net_cash_flow' = orDefault 0 (net_cash_flow analysis_summary');
                debt_to_income' = orDefault 0 (debt_to_income analysis_summary');
                ratio = dtiRatio debt_to_income';
                dtiRisk = getDtiRisk (parseFloat ratio);
                loanVerdict = getLoanVerdict loan_score'
            in
              (case analysis_summary finalResult' of
                None \<Rightarrow> Inl TypeError
              | Some summary \<Rightarrow>
                  let flows = orDefault [] (monthly_flows summary);
                      l6 = last6 flows;
                      pct = orDefault [] (spending_by_category finalResult')
                  in Inr (Some
                       \<lparr>view_loan_score = loan_score',
                        view_loanVerdict = loanVerdict,
                        view_net_cash_flow = net_cash_flow',
                        view_total_deposits = total_deposits',
                        view_total_withdrawals = total_withdrawals',
                        view_netCaption =
                          netCaption net_cash_flow' total_deposits' total_withdrawals',
                        view_dtiRatio = ratio,
                        view_dtiRisk = dtiRisk,
                        view_monthlyData = monthlyData l6,
                        view_balanceData = balanceData l6,
                        view_spendingData = spendingData pct total_withdrawals',
                        view_issues = data_issues'\<rparr>)))"

section \<open>A concrete payload\<close>

text \<open>
  A finished analysis with eight recorded months, one of them ending overdrawn, used
  where the properties below are instantiated.
\<close>

definition sample_flows :: "(string \<times> MonthlyFlow) list" where
  "sample_flows =
    [(''2024-01'', \<lparr>deposits = 1000, withdrawals = 800, end_balance = 200,
                    monthly_debt_to_income = 1 / 10\<rparr>),
     (''2024-02'', \<lparr>deposits = 1100, withdrawals = 900, end_balance = 400,
                    monthly_debt_to_income = 1 / 10\<rparr>),
     (''2024-03'', \<lparr>deposits = 900, withdrawals = 1500, end_balance = - 200,
                    monthly_debt_to_income = 2 / 10\<rparr>),
     (''2024-04'', \<lparr>deposits = 1200, withdrawals = 700, end_balance = 300,
                    monthly_debt_to_income = 1 / 10\<rparr>),
     (''2024-05'', \<lparr>deposits = 1000, withdrawals = 1000, end_balance = 300,
                    monthly_debt_to_income = 1 / 10\<rparr>),
     (''2024-06'', \<lparr>deposits = 1300, withdrawals = 600, end_balance = 1000,
                    monthly_debt_to_income = 1 / 10\<rparr>),
     (''2024-07'', \<lparr>deposits = 800, withdrawals = 900, end_balance = 900,
                    monthly_debt_to_income = 1 / 10\<rparr>),
     (''2024-08'', \<lparr>deposits = 700, withdrawals = 600, end_balance = 1000,
                    monthly_debt_to_income = 1 / 10\<rparr>)]"

definition sample_summary :: AnalysisSummary where
  "sample_summary =
     \<lparr>total_deposits = Some 8000, total_withdrawals = Some 7000,
      net_cash_flow = Some 1000, debt_to_income = Some (1 / 8),
      monthly_flows = Some sample_flows\<rparr>"

definition sample_result :: GeminiResult where
  "sample_result =
     \<lparr>session_id = Some ''job-1'', loan_amount_requested = Some 5000,
      analysis_summary = Some sample_summary, loan_score = Some 82,
      summary_paragraph = Some ''Stable income.'',
      spending_by_category = Some [(''A'', 50), (''B'', 50)],
      data_issues = Some []\<rparr>"

section \<open>Properties of the stage update\<close>

lemma length_updateSteps: "length (updateSteps step prev) = length prev"
  by (simp add: updateSteps_def)

lemma nth_updateSteps:
  "i < length prev \<Longrightarrow>
   updateSteps step prev ! i =
     (prev ! i)\<lparr>status :=
        (if int i < step then Completed
         else if int i = step then Processing
         else Pending)\<rparr>"
  by (simp add: updateSteps_def nth_enumerate_eq)

lemma map_status_updateSteps:
  "map status (updateSteps step prev) =
     map (\<lambda>i. if int i < step then Completed
               else if int i = step then Processing
               else Pending) [0..<length prev]"
  by (rule nth_equalityI) (simp_all add: length_updateSteps nth_updateSteps)

lemma count_below:
  "0 \<le> step \<Longrightarrow> step \<le> int n \<Longrightarrow>
   length (filter (\<lambda>i. int i < step) [0..<n]) = nat step"
  by (induction n) auto

lemma count_at:
  "0 \<le> step \<Longrightarrow>
   length (filter (\<lambda>i. int i = step) [0..<n]) = (if step < int n then 1 else 0)"
  by (induction n) auto

lemma count_above:
  "0 \<le> step \<Longrightarrow> step \<le> int n \<Longrightarrow>
   length (filter (\<lambda>i. step < int i) [0..<n]) =
     n - nat step - (if step < int n then 1 else 0)"
  by (induction n) auto

lemma count_status:
  "length (filter (\<lambda>s. status s = c) xs) = length (filter (\<lambda>c'. c' = c) (map status xs))"
  by (induction xs) auto

lemma length_steps: "length steps = 7"
  by (simp add: steps_def)

lemma handle_ProgressOk_mounted:
  "isMounted s \<Longrightarrow>
   currentStep (handle (ProgressOk step) s) = step \<and>
   processedSteps (handle (ProgressOk step) s) = updateSteps step (processedSteps s)"
  by (simp add: Let_def)

text \<open>
  C1. When the poll handler processes a status response on a mounted page, it stores the
  step count and replaces the stage sequence by \<^const>\<open>updateSteps\<close> of it. For a step
  count in \<open>[0, N]\<close>, where \<open>N\<close> is the number of stages (7 for \<^const>\<open>steps\<close>), that gives
  stage \<open>i\<close> the state completed exactly when \<open>i < step\<close>, processing exactly when
  \<open>i = step\<close>, and pending otherwise. Hence exactly \<open>step\<close> stages are completed, one stage
  is processing when \<open>step < N\<close> and none when \<open>step = N\<close>, the rest are pending, and the
  resulting states are the same for any two previous sequences of the same length.
\<close>

theorem C1_stage_states:
  assumes "0 \<le> step" and "step \<le> int (length prev)"
  shows "(\<forall>i < length prev.
            (status (updateSteps step prev ! i) = Completed \<longleftrightarrow> int i < step) \<and>
            (status (updateSteps step prev ! i) = Processing \<longleftrightarrow> int i = step) \<and>
            (status (updateSteps step prev ! i) = Pending \<longleftrightarrow> step < int i)) \<and>
         length (filter (\<lambda>s. status s = Completed) (updateSteps step prev)) = nat step \<and>
         length (filter (\<lambda>s. status s = Processing) (updateSteps step prev)) =
           (if step < int (length prev) then 1 else 0) \<and>
         length (filter (\<lambda>s. status s = Pending) (updateSteps step prev)) =
           length prev - nat step - (if step < int (length prev) then 1 else 0) \<and>
         (\<forall>prev'. length prev' = length prev \<longrightarrow>
            map status (updateSteps step prev') = map status (updateSteps step prev)) \<and>
         length (updateSteps step steps) = 7 \<and>
         (isMounted s \<and> processedSteps s = prev \<longrightarrow>
            currentStep (handle (ProgressOk step) s) = step \<and>
            processedSteps (handle (ProgressOk step) s) = updateSteps step prev \<and>
            (\<forall>i < length prev.
               (status (processedSteps (handle (ProgressOk step) s) ! i) = Completed
                  \<longleftrightarrow> int i < step) \<and>
               (status (processedSteps (handle (ProgressOk step) s) ! i) = Processing
                  \<longleftrightarrow> int i = step) \<and>
               (status (processedSteps (handle (ProgressOk step) s) ! i) = Pending
                  \<longleftrightarrow> step < int i)) \<and>
            length (filter (\<lambda>x. status x = Completed)
                      (processedSteps (handle (ProgressOk step) s))) = nat step \<and>
            length (filter (\<lambda>x. status x = Processing)
                      (processedSteps (handle (ProgressOk step) s))) =
              (if step < int (length prev) then 1 else 0) \<and>
            length (filter (\<lambda>x. status x = Pending)
                      (processedSteps (handle (ProgressOk step) s))) =
              length prev - nat step - (if step < int (length prev) then 1 else 0)) \<and>
         (isMounted s \<and> isMounted s' \<and>
          length (processedSteps s') = length (processedSteps s) \<longrightarrow>
            map status (processedSteps (handle (ProgressOk step) s')) =
            map status (processedSteps (handle (ProgressOk step) s)))"
proof -
  let ?f = "\<lambda>i. if int i < step then Completed
                 else if int i = step then Processing else Pending"
  let ?n = "length prev"
  have each: "\<forall>i < ?n.
      (status (updateSteps step prev ! i) = Completed \<longleftrightarrow> int i < step) \<and>
      (status (updateSteps step prev ! i) = Processing \<longleftrightarrow> int i = step) \<and>
      (status (updateSteps step prev ! i) = Pending \<longleftrightarrow> step < int i)"
    by (simp add: nth_updateSteps)
  have c: "filter (\<lambda>c'. c' = Completed) (map ?f [0..<?n]) =
           map ?f (filter (\<lambda>i. int i < step) [0..<?n])"
  proof -
    have "\<And>i. (?f i = Completed) = (int i < step)" by auto
    then show ?thesis by (simp add: filter_map comp_def)
  qed
  have p: "filter (\<lambda>c'. c' = Processing) (map ?f [0..<?n]) =
           map ?f (filter (\<lambda>i. int i = step) [0..<?n])"
  proof -
    have "\<And>i. (?f i = Processing) = (int i = step)" by auto
    then show ?thesis by (simp add: filter_map comp_def)
  qed
  have q: "filter (\<lambda>c'. c' = Pending) (map ?f [0..<?n]) =
           map ?f (filter (\<lambda>i. step < int i) [0..<?n])"
  proof -
    have "\<And>i. (?f i = Pending) = (step < int i)" by auto
    then show ?thesis by (simp add: filter_map comp_def)
  qed
  have n_completed:
    "length (filter (\<lambda>s. status s = Completed) (updateSteps step prev)) = nat step"
    using assms by (simp only: count_status map_status_updateSteps c length_map count_below)
  have n_processing:
    "length (filter (\<lambda>s. status s = Processing) (updateSteps step prev)) =
       (if step < int ?n then 1 else 0)"
    using assms by (simp only: count_status map_status_updateSteps p length_map count_at)
  have n_pending:
    "length (filter (\<lambda>s. status s = Pending) (updateSteps step prev)) =
       ?n - nat step - (if step < int ?n then 1 else 0)"
    using assms by (simp only: count_status map_status_updateSteps q length_map count_above)
  have indep: "\<forall>prev'. length prev' = ?n \<longrightarrow>
      map status (updateSteps step prev') = map status (updateSteps step prev)"
    by (simp add: map_status_updateSteps)
  have seven: "length (updateSteps step steps) = 7"
    by (simp add: length_updateSteps length_steps)
  have handler: "currentStep (handle (ProgressOk step) s) = step \<and>
            processedSteps (handle (ProgressOk step) s) = updateSteps step prev \<and>
            (\<forall>i < length prev.
               (status (processedSteps (handle (ProgressOk step) s) ! i) = Completed
                  \<longleftrightarrow> int i < step) \<and>
               (status (processedSteps (handle (ProgressOk step) s) ! i) = Processing
                  \<longleftrightarrow> int i = step) \<and>
               (status (processedSteps (handle (ProgressOk step) s) ! i) = Pending
                  \<longleftrightarrow> step < int i)) \<and>
            length (filter (\<lambda>x. status x = Completed)
                      (processedSteps (handle (ProgressOk step) s))) = nat step \<and>
            length (filter (\<lambda>x. status x = Processing)
                      (processedSteps (handle (ProgressOk step) s))) =
              (if step < int (length prev) then 1 else 0) \<and>
            length (filter (\<lambda>x. status x = Pending)
                      (processedSteps (handle (ProgressOk step) s))) =
              length prev - nat step - (if step < int (length prev) then 1 else 0)"
    if "isMounted s \<and> processedSteps s = prev"
  proof -
    from that handle_ProgressOk_mounted [of s step]
    have h: "currentStep (handle (ProgressOk step) s) = step"
      "processedSteps (handle (ProgressOk step) s) = updateSteps step prev"
      by simp_all
    show ?thesis
      unfolding h using each n_completed n_processing n_pending by simp
  qed
  have same: "map status (processedSteps (handle (ProgressOk step) s')) =
              map status (processedSteps (handle (ProgressOk step) s))"
    if "isMounted s \<and> isMounted s' \<and>
        length (processedSteps s') = length (processedSteps s)"
  proof -
    from that handle_ProgressOk_mounted [of s step] handle_ProgressOk_mounted [of s' step]
    have h: "processedSteps (handle (ProgressOk step) s) =
               updateSteps step (processedSteps s)"
      "processedSteps (handle (ProgressOk step) s') =
               updateSteps step (processedSteps s')"
      by simp_all
    show ?thesis unfolding h using that by (simp add: map_status_updateSteps)
  qed
  from each n_completed n_processing n_pending indep seven handler same show ?thesis
    by blast
qed

theorem C1_stage_states_witness:
  "(0::int) \<le> 3 \<and> 3 \<le> int (length steps) \<and>
   map status (updateSteps 3 steps) =
     [Completed, Completed, Completed, Processing, Pending, Pending, Pending] \<and>
   length (filter (\<lambda>s. status s = Completed) (updateSteps 3 steps)) = 3 \<and>
   length (filter (\<lambda>s. status s = Processing) (updateSteps 3 steps)) = 1 \<and>
   length (filter (\<lambda>s. status s = Pending) (updateSteps 3 steps)) = 3 \<and>
   isMounted (mount ''job-1'' initial) \<and>
   processedSteps (mount ''job-1'' initial) = steps \<and>
   map_option (\<lambda>t. (currentStep t, map status (processedSteps t)))
     (run [ProgressOk 3] (mount ''job-1'' initial)) =
   Some (3, [Completed, Completed, Completed, Processing, Pending, Pending, Pending])"
proof -
  let ?s = "mount ''job-1'' initial"
  have h0: "(0::int) \<le> 3" by simp
  have h1: "(3::int) \<le> int (length steps)" by (simp add: length_steps)
  have m: "map status (updateSteps 3 steps) =
     [Completed, Completed, Completed, Processing, Pending, Pending, Pending]"
    by (simp add: updateSteps_def steps_def enumerate_eq_zip upt_rec)
  have s: "isMounted ?s" "processedSteps ?s = steps" "enabled (ProgressOk 3) ?s"
    by (simp_all add: mount_def initial_def pollProgress_def)
  note c = C1_stage_states [OF h0 h1, of ?s ?s]
  from c s have h: "currentStep (handle (ProgressOk 3) ?s) = 3"
    "processedSteps (handle (ProgressOk 3) ?s) = updateSteps 3 steps"
    by blast+
  have r: "run [ProgressOk 3] ?s = Some (handle (ProgressOk 3) ?s)"
    using s(3) by simp
  have k: "map_option (\<lambda>t. (currentStep t, map status (processedSteps t)))
     (run [ProgressOk 3] ?s) =
   Some (3, [Completed, Completed, Completed, Processing, Pending, Pending, Pending])"
    unfolding r by (simp only: option.map h m)
  from c h0 h1 m
  have n: "length (filter (\<lambda>s. status s = Completed) (updateSteps 3 steps)) = 3"
    "length (filter (\<lambda>s. status s = Processing) (updateSteps 3 steps)) = 1"
    "length (filter (\<lambda>s. status s = Pending) (updateSteps 3 steps)) = 3"
    by (simp_all add: length_steps)
  show ?thesis
    by (intro conjI) (rule h0 h1 m n s(1) s(2) k)+
qed

text \<open>
  C10. The update changes only the \<^verbatim>\<open>status\<close> field: the sequence keeps its length,
  and every stage keeps its title and its description, whatever the step count.
\<close>

theorem C10_update_frame:
  "length (updateSteps step prev) = length prev \<and>
   map title (updateSteps step prev) = map title prev \<and>
   map description (updateSteps step prev) = map description prev"
proof -
  have t: "map title (updateSteps step prev) = map title prev"
    by (rule nth_equalityI) (simp_all add: length_updateSteps nth_updateSteps)
  have d: "map description (updateSteps step prev) = map description prev"
    by (rule nth_equalityI) (simp_all add: length_updateSteps nth_updateSteps)
  from t d show ?thesis by (simp add: length_updateSteps)
qed

section \<open>Properties of the polling effect\<close>

lemma map_title_updateSteps: "map title (updateSteps step prev) = map title prev"
  by (rule nth_equalityI) (simp_all add: length_updateSteps nth_updateSteps)

lemma map_description_updateSteps:
  "map description (updateSteps step prev) = map description prev"
  by (rule nth_equalityI) (simp_all add: length_updateSteps nth_updateSteps)

lemma handle_keeps_titles:
  "map title (processedSteps (handle e s)) = map title (processedSteps s) \<and>
   map description (processedSteps (handle e s)) = map description (processedSteps s)"
  by (cases e)
     (simp_all add: Let_def pollProgress_def map_title_updateSteps map_description_updateSteps)

lemma run_keeps_titles:
  "run evs s = Some t \<Longrightarrow>
   map title (processedSteps t) = map title (processedSteps s) \<and>
   map description (processedSteps t) = map description (processedSteps s)"
proof (induction evs arbitrary: s)
  case Nil
  then show ?case by simp
next
  case (Cons e evs)
  from Cons.prems have r: "run evs (handle e s) = Some t"
    by (simp split: if_splits)
  from Cons.IH [OF r] handle_keeps_titles [of e s] show ?case by simp
qed

lemma processedSteps_mount: "processedSteps (mount sid s) = processedSteps s"
  by (simp add: mount_def pollProgress_def)

text \<open>
  Once the cleanup has run, every later event leaves the component state, the list of
  navigations and the two request counts as they are, and the timer stays cleared.
\<close>

lemma unmounted_handle:
  "\<not> isMounted s \<Longrightarrow> \<not> pollInterval s \<Longrightarrow> enabled e s \<Longrightarrow>
   \<not> isMounted (handle e s) \<and> \<not> pollInterval (handle e s) \<and>
   currentStep (handle e s) = currentStep s \<and>
   processedSteps (handle e s) = processedSteps s \<and>
   finalResult (handle e s) = finalResult s \<and>
   navigations (handle e s) = navigations s \<and>
   progressFetches (handle e s) = progressFetches s \<and>
   resultsFetches (handle e s) = resultsFetches s"
  by (cases e) (simp_all add: Let_def)

lemma unmounted_run:
  "\<not> isMounted s \<Longrightarrow> \<not> pollInterval s \<Longrightarrow> run evs s = Some t \<Longrightarrow>
   \<not> isMounted t \<and> \<not> pollInterval t \<and>
   currentStep t = currentStep s \<and>
   processedSteps t = processedSteps s \<and>
   finalResult t = finalResult s \<and>
   navigations t = navigations s \<and>
   progressFetches t = progressFetches s \<and>
   resultsFetches t = resultsFetches s"
proof (induction evs arbitrary: s)
  case Nil
  then show ?case by simp
next
  case (Cons e evs)
  from Cons.prems(3) have en: "enabled e s" and r: "run evs (handle e s) = Some t"
    by (simp_all split: if_splits)
  note h = unmounted_handle [OF Cons.prems(1) Cons.prems(2) en]
  from h have a: "\<not> isMounted (handle e s)" and b: "\<not> pollInterval (handle e s)"
    by simp_all
  from Cons.IH [OF a b r] h show ?case by simp
qed

text \<open>
  With the timer cleared no event starts a poll; with no poll in flight either, no
  event issues a request for the result.
\<close>

lemma timer_off_handle:
  "\<not> pollInterval s \<Longrightarrow> enabled e s \<Longrightarrow>
   \<not> pollInterval (handle e s) \<and> progressFetches (handle e s) = progressFetches s"
  by (cases e) (simp_all add: Let_def)

lemma timer_off_run:
  "\<not> pollInterval s \<Longrightarrow> run evs s = Some t \<Longrightarrow>
   \<not> pollInterval t \<and> progressFetches t = progressFetches s"
proof (induction evs arbitrary: s)
  case Nil
  then show ?case by simp
next
  case (Cons e evs)
  from Cons.prems(2) have en: "enabled e s" and r: "run evs (handle e s) = Some t"
    by (simp_all split: if_splits)
  note h = timer_off_handle [OF Cons.prems(1) en]
  from h have a: "\<not> pollInterval (handle e s)" by simp
  from Cons.IH [OF a r] h show ?case by simp
qed

lemma quiet_handle:
  "\<not> pollInterval s \<Longrightarrow> pendingProgress s = 0 \<Longrightarrow> enabled e s \<Longrightarrow>
   \<not> pollInterval (handle e s) \<and> pendingProgress (handle e s) = 0 \<and>
   resultsFetches (handle e s) = resultsFetches s"
  by (cases e) (simp_all add: Let_def)

lemma quiet_run:
  "\<not> pollInterval s \<Longrightarrow> pendingProgress s = 0 \<Longrightarrow> run evs s = Some t \<Longrightarrow>
   resultsFetches t = resultsFetches s"
proof (induction evs arbitrary: s)
  case Nil
  then show ?case by simp
next
  case (Cons e evs)
  from Cons.prems(3) have en: "enabled e s" and r: "run evs (handle e s) = Some t"
    by (simp_all split: if_splits)
  note h = quiet_handle [OF Cons.prems(1) Cons.prems(2) en]
  from h have a: "\<not> pollInterval (handle e s)" and b: "pendingProgress (handle e s) = 0"
    by simp_all
  from Cons.IH [OF a b r] h show ?case by simp
qed

lemma completion_handle:
  assumes "isMounted s" and "int (length (processedSteps s)) \<le> step"
  shows "\<not> pollInterval (handle (ProgressOk step) s) \<and>
         resultsFetches (handle (ProgressOk step) s) = resultsFetches s + 1 \<and>
         progressFetches (handle (ProgressOk step) s) = progressFetches s \<and>
         pendingProgress (handle (ProgressOk step) s) = pendingProgress s - 1"
  using assms by (simp add: Let_def)

text \<open>
  C3, as the code has it. Two polls can be in flight together: the effect calls
  \<^verbatim>\<open>pollProgress\<close> at once and the timer calls it again a second later, whether or not
  the first answer has come. Each answer with \<open>step \<ge> N\<close> that is processed while the
  page is mounted issues a request for the result: in the execution below the request
  is issued twice.
\<close>

theorem C3_double_fetch_counterexample:
  "map_option resultsFetches
     (run [Tick, ProgressOk 7, ProgressOk 7] (mount ''job-1'' initial)) = Some 2"
  by (simp add: mount_def initial_def pollProgress_def length_updateSteps length_steps Let_def)

lemma length_processedSteps_handle:
  "length (processedSteps (handle e s)) = length (processedSteps s)"
  by (cases e) (simp_all add: Let_def pollProgress_def length_updateSteps)

lemma mounted_handle:
  "isMounted s \<Longrightarrow>
   isMounted (handle e s) = (e \<noteq> Cleanup) \<and>
   resultsFetches (handle e s) =
     resultsFetches s +
       (case e of ProgressOk k \<Rightarrow> if int (length (processedSteps s)) \<le> k then 1 else 0
        | _ \<Rightarrow> 0)"
  by (cases e) (simp_all add: Let_def pollProgress_def)

text \<open>
  While the page is mounted, every status response with a step count of at least \<open>N\<close>
  issues a request for the result, and nothing else does.
\<close>

lemma mounted_run_fetches:
  "isMounted s \<Longrightarrow> run evs s = Some t \<Longrightarrow>
   resultsFetches t =
     resultsFetches s + laterCompletions (int (length (processedSteps s))) evs"
proof (induction evs arbitrary: s)
  case Nil
  then show ?case by simp
next
  case (Cons e evs)
  from Cons.prems(2) have r: "run evs (handle e s) = Some t"
    by (simp split: if_splits)
  note h = mounted_handle [OF Cons.prems(1), of e]
  note l = length_processedSteps_handle [of e s]
  show ?case
  proof (cases "e = Cleanup")
    case True
    have a: "\<not> isMounted (handle Cleanup s)" and b: "\<not> pollInterval (handle Cleanup s)"
      by simp_all
    from unmounted_run [OF a b] r True
    have "resultsFetches t = resultsFetches (handle Cleanup s)" by simp
    with True show ?thesis by simp
  next
    case False
    with h have m: "isMounted (handle e s)" by simp
    from Cons.IH [OF m r] l
    have "resultsFetches t =
            resultsFetches (handle e s) +
              laterCompletions (int (length (processedSteps s))) evs"
      by simp
    with h False show ?thesis by (cases e) simp_all
  qed
qed

text \<open>
  C3, amended. When a status response with \<open>step \<ge> N\<close> is processed while the page is
  mounted, the interval timer is cleared and that response issues one request for the
  result; in every execution from there the timer stays cleared and no further poll is
  started. Every later status response with a step count of at least \<open>N\<close> that is
  processed before the cleanup issues one more request, and nothing else does: the
  request is issued exactly once in the executions where no such response follows
  (whatever else becomes of the polls in flight), in particular when no other poll was in
  flight.
\<close>

theorem C3_completion_single_fetch:
  assumes "isMounted s" and "0 < pendingProgress s"
    and "int (length (processedSteps s)) \<le> step"
    and "run evs (handle (ProgressOk step) s) = Some t"
  shows "\<not> pollInterval (handle (ProgressOk step) s) \<and>
         resultsFetches (handle (ProgressOk step) s) = resultsFetches s + 1 \<and>
         \<not> pollInterval t \<and> progressFetches t = progressFetches s \<and>
         resultsFetches t =
           resultsFetches s + 1 + laterCompletions (int (length (processedSteps s))) evs \<and>
         (laterCompletions (int (length (processedSteps s))) evs = 0 \<longrightarrow>
            resultsFetches t = resultsFetches s + 1) \<and>
         (pendingProgress s = 1 \<longrightarrow> resultsFetches t = resultsFetches s + 1)"
proof -
  let ?s' = "handle (ProgressOk step) s"
  note c = completion_handle [OF assms(1) assms(3)]
  from c have off: "\<not> pollInterval ?s'" by simp
  from timer_off_run [OF off assms(4)] c
  have stays: "\<not> pollInterval t \<and> progressFetches t = progressFetches s" by simp
  from assms(1) have m: "isMounted ?s'" by (simp add: Let_def)
  note rf = c [THEN conjunct2, THEN conjunct1]
  from mounted_run_fetches [OF m assms(4)]
  have count: "resultsFetches t =
           resultsFetches s + 1 + laterCompletions (int (length (processedSteps s))) evs"
    by (simp only: length_processedSteps_handle rf)
  have once: "resultsFetches t = resultsFetches s + 1" if "pendingProgress s = 1"
  proof -
    from c that have "pendingProgress ?s' = 0" by simp
    from quiet_run [OF off this assms(4)] c show ?thesis by simp
  qed
  from c stays count once show ?thesis by simp
qed

theorem C3_completion_single_fetch_witness:
  "isMounted (handle Tick (mount ''job-1'' initial)) \<and>
   pendingProgress (handle Tick (mount ''job-1'' initial)) = 2 \<and>
   int (length (processedSteps (handle Tick (mount ''job-1'' initial)))) \<le> 7 \<and>
   map_option (\<lambda>t. (resultsFetches t, pollInterval t, progressFetches t))
     (run [ProgressOk 5, ResultsOk sample_result, Cleanup]
        (handle (ProgressOk 7) (handle Tick (mount ''job-1'' initial)))) =
   Some (1, False, 2) \<and>
   isMounted (mount ''job-1'' initial) \<and>
   pendingProgress (mount ''job-1'' initial) = 1 \<and>
   map_option resultsFetches
     (run [ResultsOk sample_result, Cleanup]
        (handle (ProgressOk 7) (mount ''job-1'' initial))) = Some 1"
proof -
  let ?s = "handle Tick (mount ''job-1'' initial)"
  have m: "isMounted ?s" and p: "pendingProgress ?s = 2"
    and f: "resultsFetches ?s = 0" and g: "progressFetches ?s = 2"
    and l: "processedSteps ?s = steps"
    by (simp_all add: mount_def initial_def pollProgress_def)
  have p0: "0 < pendingProgress ?s" using p by simp
  have n: "int (length (processedSteps ?s)) \<le> 7"
    unfolding l by (simp add: length_steps)
  obtain t where r: "run [ProgressOk 5, ResultsOk sample_result, Cleanup]
      (handle (ProgressOk 7) ?s) = Some t"
    by (simp add: mount_def initial_def pollProgress_def length_updateSteps length_steps
        Let_def)
  have z: "laterCompletions (int (length (processedSteps ?s)))
             [ProgressOk 5, ResultsOk sample_result, Cleanup] = 0"
    unfolding l by (simp add: length_steps)
  from C3_completion_single_fetch [OF m p0 n r] z f g
  have "resultsFetches t = 1" and "\<not> pollInterval t" and "progressFetches t = 2"
    by simp_all
  with r have a: "map_option (\<lambda>t. (resultsFetches t, pollInterval t, progressFetches t))
     (run [ProgressOk 5, ResultsOk sample_result, Cleanup] (handle (ProgressOk 7) ?s)) =
   Some (1, False, 2)"
    by simp
  let ?u = "mount ''job-1'' initial"
  have m': "isMounted ?u" and p': "pendingProgress ?u = 1"
    and f': "resultsFetches ?u = 0"
    by (simp_all add: mount_def initial_def pollProgress_def)
  have p0': "0 < pendingProgress ?u" using p' by simp
  have n': "int (length (processedSteps ?u)) \<le> 7"
    by (simp add: processedSteps_mount initial_def length_steps)
  obtain t' where r': "run [ResultsOk sample_result, Cleanup] (handle (ProgressOk 7) ?u) =
      Some t'"
    using m' n' by (simp add: Let_def)
  from C3_completion_single_fetch [OF m' p0' n' r'] p' f'
  have "resultsFetches t' = 1" by simp
  with r' have b: "map_option resultsFetches
     (run [ResultsOk sample_result, Cleanup] (handle (ProgressOk 7) ?u)) = Some 1"
    by simp
  show ?thesis
    by (intro conjI) (rule m p n a m' p' b)+
qed

text \<open>
  C4. When the cleanup of the effect runs, the interval timer is cleared, and in every
  execution from there (whatever answers resolve, however many polls or result requests
  were in flight) \<^verbatim>\<open>currentStep\<close>, \<^verbatim>\<open>processedSteps\<close> and \<^verbatim>\<open>finalResult\<close> keep the values
  they had, no navigation is made, the timer stays cleared and no request is issued.
\<close>

theorem C4_teardown_discards:
  assumes "run evs (handle Cleanup s) = Some t"
  shows "\<not> pollInterval (handle Cleanup s) \<and> \<not> pollInterval t \<and>
         currentStep t = currentStep s \<and>
         processedSteps t = processedSteps s \<and>
         finalResult t = finalResult s \<and>
         navigations t = navigations s \<and>
         progressFetches t = progressFetches s \<and>
         resultsFetches t = resultsFetches s"
proof -
  have a: "\<not> isMounted (handle Cleanup s)" and b: "\<not> pollInterval (handle Cleanup s)"
    by simp_all
  from unmounted_run [OF a b assms] b show ?thesis by simp
qed

theorem C4_teardown_discards_witness:
  "map_option (\<lambda>t. (currentStep t, finalResult t, navigations t, pollInterval t,
                    map status (processedSteps t)))
     (run [ProgressOk 7, ProgressFailed]
        (handle Cleanup (handle Tick (mount ''job-1'' initial)))) =
   Some (0, None, [], False,
         [Pending, Pending, Pending, Pending, Pending, Pending, Pending])"
proof -
  let ?s = "handle Tick (mount ''job-1'' initial)"
  have s: "currentStep ?s = 0" "finalResult ?s = None" "navigations ?s = []"
    "processedSteps ?s = steps" "pendingProgress ?s = 2"
    by (simp_all add: mount_def initial_def pollProgress_def)
  obtain t where r: "run [ProgressOk 7, ProgressFailed] (handle Cleanup ?s) = Some t"
    using s(5) by (simp add: Let_def)
  from C4_teardown_discards [OF r] s r show ?thesis
    by (simp add: steps_def)
qed

text \<open>
  C10, over a whole run: from the start of the effect on, whatever events happen, the
  stages keep the titles and descriptions of \<^const>\<open>steps\<close>.
\<close>

lemma run_titles_fixed:
  assumes "run evs (mount sid initial) = Some t"
  shows "map title (processedSteps t) = map title steps \<and>
         map description (processedSteps t) = map description steps"
  using run_keeps_titles [OF assms] by (simp add: processedSteps_mount initial_def)

section \<open>Properties of the rounding to a double\<close>

lemma pow2_Suc: "(2::rat) powi (k + 1) = 2 powi k * 2"
  by (rule power_int_add_1) simp

lemma halvings_bounds:
  "1 \<le> a \<Longrightarrow> 2 powi (halvings a) \<le> a \<and> a < 2 powi (halvings a + 1)"
proof (induction a rule: halvings.induct)
  case (1 a)
  show ?case
  proof (cases "2 \<le> a")
    case True
    then have "1 \<le> a / 2" by simp
    from "1.IH" [OF True this]
    have h: "2 powi halvings (a / 2) \<le> a / 2" "a / 2 < 2 powi (halvings (a / 2) + 1)"
      by simp_all
    have eq: "halvings a = halvings (a / 2) + 1"
      using True by (subst halvings.simps) simp
    from h have "2 powi halvings (a / 2) * 2 \<le> a"
      and "a < 2 powi (halvings (a / 2) + 1) * 2" by linarith+
    then show ?thesis unfolding eq by (simp only: pow2_Suc)
  next
    case False
    then have "halvings a = 0" by (subst halvings.simps) simp
    with False "1.prems" show ?thesis by simp
  qed
qed

lemma doublings_bounds:
  "0 < a \<Longrightarrow> a < 1 \<Longrightarrow> 2 powi (doublings a) \<le> a \<and> a < 2 powi (doublings a + 1)"
proof (induction a rule: doublings.induct)
  case (1 a)
  from "1.prems" have c: "0 < a \<and> a < 1" by simp
  have eq: "doublings a = doublings (a * 2) - 1"
    using c by (subst doublings.simps) simp
  show ?case
  proof (cases "a * 2 < 1")
    case True
    from c have "0 < a * 2" by simp
    from "1.IH" [OF c this True]
    have h: "2 powi doublings (a * 2) \<le> a * 2" "a * 2 < 2 powi (doublings (a * 2) + 1)"
      by simp_all
    have p: "(2::rat) powi doublings (a * 2) = 2 powi (doublings (a * 2) - 1) * 2"
      using pow2_Suc [of "doublings (a * 2) - 1"] by simp
    have q: "(2::rat) powi (doublings (a * 2) + 1) = 2 powi (doublings (a * 2) - 1 + 1) * 2"
      using pow2_Suc [of "doublings (a * 2)"] by simp
    from h(1) have "2 powi (doublings (a * 2) - 1) \<le> a" unfolding p by linarith
    moreover from h(2) have "a < 2 powi (doublings (a * 2) - 1 + 1)" unfolding q by linarith
    ultimately show ?thesis unfolding eq by simp
  next
    case False
    then have "doublings (a * 2) = 0" by (subst doublings.simps) simp
    with eq have "doublings a = - 1" by simp
    with False c show ?thesis by simp
  qed
qed

lemma expo_bounds:
  assumes "0 < a"
  shows "2 powi (expo a) \<le> a \<and> a < 2 powi (expo a + 1)"
proof (cases "1 \<le> a")
  case True
  then show ?thesis using halvings_bounds [of a] by (simp add: expo_def)
next
  case False
  then show ?thesis using doublings_bounds [of a] assms by (simp add: expo_def)
qed

lemma expo_unique:
  assumes "0 < a" and "2 powi e \<le> a" and "a < 2 powi (e + 1)"
  shows "expo a = e"
proof (rule ccontr)
  assume ne: "expo a \<noteq> e"
  note b = expo_bounds [OF assms(1)]
  show False
  proof (cases "expo a < e")
    case True
    then have "expo a + 1 \<le> e" by simp
    then have "(2::rat) powi (expo a + 1) \<le> 2 powi e"
      by (rule power_int_increasing) simp
    with b assms(2) show False by linarith
  next
    case False
    with ne have "e + 1 \<le> expo a" by simp
    then have "(2::rat) powi (e + 1) \<le> 2 powi expo a"
      by (rule power_int_increasing) simp
    with b assms(3) show False by linarith
  qed
qed

lemma roundHalfEven_near: "\<bar>of_int (roundHalfEven y) - y\<bar> \<le> 1 / 2"
proof -
  have f: "of_int \<lfloor>y\<rfloor> \<le> y" "y < of_int \<lfloor>y\<rfloor> + 1" by linarith+
  show ?thesis
    unfolding roundHalfEven_def Let_def
    using f by (auto simp: abs_le_iff)
qed

lemma roundHalfEven_unique:
  assumes "\<bar>of_int m - y\<bar> < 1 / 2"
  shows "roundHalfEven y = m"
proof -
  from roundHalfEven_near [of y] assms
  have "\<bar>(of_int (roundHalfEven y) :: rat) - of_int m\<bar> < 1" by linarith
  then have "\<bar>(of_int (roundHalfEven y - m) :: rat)\<bar> < of_int 1" by simp
  then have "\<bar>roundHalfEven y - m\<bar> < 1"
    by (simp only: of_int_abs [symmetric] of_int_less_iff)
  then show ?thesis by simp
qed

lemma fl_eval:
  assumes "0 < a" and "2 powi e \<le> a" and "a < 2 powi (e + 1)" and "- 1022 \<le> e"
    and "\<bar>of_int m - a / 2 powi (e - 52)\<bar> < 1 / 2"
    and "of_int m * 2 powi (e - 52) < (2::rat) ^ 1024"
  shows "fl a = Finite (of_int m * 2 powi (e - 52))"
    and "fl (- a) = Finite (- (of_int m * 2 powi (e - 52)))"
proof -
  from expo_unique [OF assms(1-3)] assms(4) have e: "max (expo a) (- 1022) = e" by simp
  note r = roundHalfEven_unique [OF assms(5)]
  from assms(1) have a: "\<bar>a\<bar> = a" "\<bar>- a\<bar> = a" "a \<noteq> 0" "\<not> a < 0" by simp_all
  show "fl a = Finite (of_int m * 2 powi (e - 52))"
    using assms(6) by (simp add: fl_def Let_def a e r)
  show "fl (- a) = Finite (- (of_int m * 2 powi (e - 52)))"
    using assms(6) assms(1) by (simp add: fl_def Let_def a e r)
qed

lemma fl_error:
  assumes "fl x = Finite y"
  shows "\<bar>y - x\<bar> \<le> 2 powi (max (expo \<bar>x\<bar>) (- 1022) - 53)"
proof (cases "x = 0")
  case True
  with assms show ?thesis by (simp add: fl_def)
next
  case False
  define e where "e = max (expo \<bar>x\<bar>) (- 1022)"
  define u :: rat where "u = 2 powi (e - 52)"
  define m :: rat where "m = of_int (roundHalfEven (\<bar>x\<bar> / u))"
  have u: "0 < u" by (simp add: u_def)
  have "\<bar>m - \<bar>x\<bar> / u\<bar> \<le> 1 / 2" unfolding m_def by (rule roundHalfEven_near)
  then have "\<bar>m - \<bar>x\<bar> / u\<bar> * u \<le> 1 / 2 * u" using u by (simp only: mult_le_cancel_right_pos)
  moreover have "\<bar>m - \<bar>x\<bar> / u\<bar> * u = \<bar>m * u - \<bar>x\<bar>\<bar>"
  proof -
    have "\<bar>m - \<bar>x\<bar> / u\<bar> * u = \<bar>(m - \<bar>x\<bar> / u) * u\<bar>" using u by (simp add: abs_mult)
    also have "(m - \<bar>x\<bar> / u) * u = m * u - \<bar>x\<bar>" using u by (simp add: field_simps)
    finally show ?thesis .
  qed
  moreover have "1 / 2 * u = 2 powi (e - 53)"
  proof -
    have "(2::rat) powi (e - 53 + 1) = 2 powi (e - 53) * 2" by (rule pow2_Suc)
    then show ?thesis by (simp add: u_def)
  qed
  ultimately have near: "\<bar>m * u - \<bar>x\<bar>\<bar> \<le> 2 powi (e - 53)" by simp
  have "fl x = (if 2 ^ 1024 \<le> m * u then (if x < 0 then NegInf else PosInf)
                else Finite (if x < 0 then - (m * u) else m * u))"
    using False by (simp only: fl_def Let_def e_def u_def m_def if_False)
  with assms have y: "y = (if x < 0 then - (m * u) else m * u)"
    by (simp split: if_splits)
  have "\<bar>y - x\<bar> = \<bar>m * u - \<bar>x\<bar>\<bar>"
    unfolding y by (cases "x < 0") (simp_all add: abs_minus_commute)
  with near show ?thesis by (simp add: e_def)
qed

lemma fl_relative_error:
  assumes "fl x = Finite y" and "2 powi (- 1022) \<le> \<bar>x\<bar>"
  shows "\<bar>y - x\<bar> \<le> \<bar>x\<bar> / 2 ^ 53"
proof -
  have pos: "0 < \<bar>x\<bar>"
    using assms(2) zero_less_power_int [of "2::rat" "- 1022"] by linarith
  note b = expo_bounds [OF pos]
  have "- 1022 \<le> expo \<bar>x\<bar>"
  proof (rule ccontr)
    assume "\<not> - 1022 \<le> expo \<bar>x\<bar>"
    then have "expo \<bar>x\<bar> + 1 \<le> - 1022" by simp
    then have "(2::rat) powi (expo \<bar>x\<bar> + 1) \<le> 2 powi (- 1022)"
      by (rule power_int_increasing) simp
    with b assms(2) show False by linarith
  qed
  then have e: "max (expo \<bar>x\<bar>) (- 1022) = expo \<bar>x\<bar>" by simp
  have p53: "(2::rat) powi (- 53) = 1 / 2 ^ 53" by simp
  have "(2::rat) powi (expo \<bar>x\<bar> - 53) = 2 powi (expo \<bar>x\<bar>) * 2 powi (- 53)"
    using power_int_add [of "2::rat" "expo \<bar>x\<bar>" "- 53"] by simp
  also have "\<dots> = 2 powi (expo \<bar>x\<bar>) / 2 ^ 53"
    unfolding p53 by simp
  also have "\<dots> \<le> \<bar>x\<bar> / 2 ^ 53"
    by (rule divide_right_mono) (simp_all add: b)
  finally have "2 powi (expo \<bar>x\<bar> - 53) \<le> \<bar>x\<bar> / 2 ^ 53" .
  with fl_error [OF assms(1)] show ?thesis unfolding e by (rule order_trans)
qed


text \<open>
  The rounding error: half a unit in the last place, which is at most \<open>2\<^sup>-\<^sup>5\<^sup>3\<close> of the
  magnitude in the normal range and \<open>2\<^sup>-\<^sup>1\<^sup>0\<^sup>7\<^sup>5\<close> below it.
\<close>

lemma fl_error_bound:
  assumes "fl x = Finite y"
  shows "\<bar>y - x\<bar> \<le> max (\<bar>x\<bar> / 2 ^ 53) (2 powi (- 1075))"
proof (cases "2 powi (- 1022) \<le> \<bar>x\<bar>")
  case True
  from fl_relative_error [OF assms True] show ?thesis by (rule max.coboundedI1)
next
  case small: False
  show ?thesis
  proof (cases "x = 0")
    case True
    with assms have "\<bar>y - x\<bar> \<le> \<bar>x\<bar> / 2 ^ 53" by (simp add: fl_def)
    then show ?thesis by (rule max.coboundedI1)
  next
    case False
    then have pos: "0 < \<bar>x\<bar>" by simp
    have "expo \<bar>x\<bar> \<le> - 1022"
    proof (rule ccontr)
      assume "\<not> expo \<bar>x\<bar> \<le> - 1022"
      then have "- 1022 \<le> expo \<bar>x\<bar>" by simp
      then have "(2::rat) powi (- 1022) \<le> 2 powi expo \<bar>x\<bar>"
        by (rule power_int_increasing) simp
      with expo_bounds [OF pos] small show False by linarith
    qed
    then have "max (expo \<bar>x\<bar>) (- 1022) = - 1022" by simp
    with fl_error [OF assms] have "\<bar>y - x\<bar> \<le> 2 powi (- 1022 - 53)" by (simp only:)
    then have "\<bar>y - x\<bar> \<le> 2 powi (- 1075)" by simp
    then show ?thesis by (rule max.coboundedI2)
  qed
qed

lemma fl_not_NaN: "fl x \<noteq> NaN"
  by (simp add: fl_def Let_def)

lemma fl_0: "fl 0 = Finite 0"
  by (simp add: fl_def)

text \<open>The doubles that the instances below go through.\<close>

lemma fl_3_2000: "fl (3 / 2000) = Finite (3458764513820541 / 2 ^ 61)"
  using fl_eval(1) [of "3 / 2000" "- 10" 6917529027641082] by simp

lemma fl_d0_100: "fl (3458764513820541 / 2 ^ 61 * 100) = Finite (5404319552844595 / 2 ^ 55)"
  using fl_eval(1) [of "3458764513820541 / 2 ^ 61 * 100" "- 3" 5404319552844595] by simp

lemma fl_d0: "fl (3458764513820541 / 2 ^ 61) = Finite (3458764513820541 / 2 ^ 61)"
  using fl_eval(1) [of "3458764513820541 / 2 ^ 61" "- 10" 6917529027641082] by simp

lemma fl_25_2: "fl (25 / 2) = Finite (25 / 2)"
  using fl_eval(1) [of "25 / 2" 3 7036874417766400] by simp

lemma fl_1_2: "fl (1 / 2) = Finite (1 / 2)"
  using fl_eval(1) [of "1 / 2" "- 1" 4503599627370496] by simp

lemma fl_1: "fl (1) = Finite (1)"
  using fl_eval(1) [of "1" 0 4503599627370496] by simp

lemma fl_5: "fl (5) = Finite (5)"
  using fl_eval(1) [of "5" 2 5629499534213120] by simp

lemma fl_500: "fl (500) = Finite (500)"
  using fl_eval(1) [of "500" 8 8796093022208000] by simp

lemma fl_2000: "fl (2000) = Finite (2000)"
  using fl_eval(1) [of "2000" 10 8796093022208000] by simp

lemma fl_3500: "fl (3500) = Finite (3500)"
  using fl_eval(1) [of "3500" 11 7696581394432000] by simp

lemma fl_15000: "fl (15000) = Finite (15000)"
  using fl_eval(1) [of "15000" 13 8246337208320000] by simp

lemma fl_29_100: "fl (29 / 100) = Finite (5224175567749775 / 2 ^ 54)"
  using fl_eval(1) [of "29 / 100" "- 2" 5224175567749775] by simp

lemma fl_q29_50: "fl (5224175567749775 / 2 ^ 54 * 50) = Finite (8162774324609023 / 2 ^ 49)"
  using fl_eval(1) [of "5224175567749775 / 2 ^ 54 * 50" 3 8162774324609023] by simp

lemma fl_1_15: "fl (1 / 15) = Finite (4803839602528529 / 2 ^ 56)"
  using fl_eval(1) [of "1 / 15" "- 4" 4803839602528529] by simp

lemma fl_q15_100: "fl (4803839602528529 / 2 ^ 56 * 100) = Finite (7505999378950827 / 2 ^ 50)"
  using fl_eval(1) [of "4803839602528529 / 2 ^ 56 * 100" 2 7505999378950827] by simp

text \<open>
  Rounding never crosses a double: what lies on one side of a positive double is rounded
  to that side of it.
\<close>

lemma expo_mono:
  assumes "0 < x" and "x \<le> c"
  shows "expo x \<le> expo c"
proof (rule ccontr)
  assume "\<not> expo x \<le> expo c"
  then have "expo c + 1 \<le> expo x" by simp
  then have "(2::rat) powi (expo c + 1) \<le> 2 powi expo x"
    by (rule power_int_increasing) simp
  moreover from assms have "0 < c" by simp
  ultimately show False
    using expo_bounds [OF assms(1)] expo_bounds [of c] assms(2) by linarith
qed

lemma roundHalfEven_le_int:
  assumes "y \<le> of_int M"
  shows "roundHalfEven y \<le> M"
proof -
  from roundHalfEven_near [of y] assms
  have "(of_int (roundHalfEven y) :: rat) < of_int M + 1" by linarith
  then have "(of_int (roundHalfEven y) :: rat) < of_int (M + 1)" by simp
  then have "roundHalfEven y < M + 1" by (simp only: of_int_less_iff)
  then show ?thesis by simp
qed

lemma roundHalfEven_ge_int:
  assumes "of_int M \<le> y"
  shows "M \<le> roundHalfEven y"
proof -
  from roundHalfEven_near [of y] assms
  have "(of_int M :: rat) - 1 < of_int (roundHalfEven y)" by linarith
  then have "(of_int (M - 1) :: rat) < of_int (roundHalfEven y)" by simp
  then have "M - 1 < roundHalfEven y" by (simp only: of_int_less_iff)
  then show ?thesis by simp
qed

lemma fl_positive_unfold:
  assumes "0 < x"
  shows "fl x =
    (if (2::rat) ^ 1024 \<le>
          of_int (roundHalfEven (x / 2 powi (max (expo x) (- 1022) - 52))) *
            2 powi (max (expo x) (- 1022) - 52)
     then PosInf
     else Finite (of_int (roundHalfEven (x / 2 powi (max (expo x) (- 1022) - 52))) *
                  2 powi (max (expo x) (- 1022) - 52)))"
  using assms by (simp add: fl_def Let_def)

lemma fl_nonpositive:
  assumes "x \<le> 0"
  shows "fl x = NegInf \<or> (\<exists>y. fl x = Finite y \<and> y \<le> 0)"
proof (cases "x = 0")
  case True
  then show ?thesis by (simp add: fl_def)
next
  case False
  with assms have neg: "x < 0" by simp
  have "0 \<le> roundHalfEven (\<bar>x\<bar> / 2 powi (max (expo \<bar>x\<bar>) (- 1022) - 52))"
    by (rule roundHalfEven_ge_int) simp
  then have "0 \<le> (of_int (roundHalfEven (\<bar>x\<bar> / 2 powi (max (expo \<bar>x\<bar>) (- 1022) - 52))) :: rat) *
               2 powi (max (expo \<bar>x\<bar>) (- 1022) - 52)"
    by simp
  with neg False show ?thesis by (simp add: fl_def Let_def)
qed

lemma pow2_int:
  assumes "0 \<le> n"
  shows "(2::rat) powi n = of_int (2 ^ nat n)"
  using assms by (simp add: power_int_def)

lemma fl_le_double:
  assumes "0 < c" and "fl c = Finite c" and "x \<le> c"
  shows "js_le (fl x) (Finite c)"
proof (cases "0 < x")
  case False
  then have "x \<le> 0" by simp
  from fl_nonpositive [OF this] assms(1) show ?thesis by auto
next
  case True
  define ex where "ex = max (expo x) (- 1022)"
  define ec where "ec = max (expo c) (- 1022)"
  define mc where "mc = roundHalfEven (c / 2 powi (ec - 52))"
  from expo_mono [OF True assms(3)] have le: "ex \<le> ec" by (simp add: ex_def ec_def)
  from assms(2) fl_positive_unfold [OF assms(1)]
  have c: "c = of_int mc * 2 powi (ec - 52)" and small: "c < 2 ^ 1024"
    by (simp_all add: ec_def mc_def split: if_splits)
  have u: "(0::rat) < 2 powi (ex - 52)" by simp
  have "(2::rat) powi (ec - 52) = 2 powi (ec - ex) * 2 powi (ex - 52)"
    using power_int_add [of "2::rat" "ec - ex" "ex - 52"] by simp
  also have "(2::rat) powi (ec - ex) = of_int (2 ^ nat (ec - ex))"
    using le by (intro pow2_int) simp
  finally have "c = of_int (mc * 2 ^ nat (ec - ex)) * 2 powi (ex - 52)"
    unfolding c by simp
  then have cm: "c / 2 powi (ex - 52) = of_int (mc * 2 ^ nat (ec - ex))"
    using u by (simp add: field_simps)
  from assms(3) u have "x / 2 powi (ex - 52) \<le> c / 2 powi (ex - 52)"
    by (simp add: divide_right_mono)
  then have "roundHalfEven (x / 2 powi (ex - 52)) \<le> mc * 2 ^ nat (ec - ex)"
    unfolding cm by (rule roundHalfEven_le_int)
  then have "(of_int (roundHalfEven (x / 2 powi (ex - 52))) :: rat) \<le>
             of_int (mc * 2 ^ nat (ec - ex))"
    by (simp only: of_int_le_iff)
  then have "of_int (roundHalfEven (x / 2 powi (ex - 52))) * 2 powi (ex - 52) \<le>
             of_int (mc * 2 ^ nat (ec - ex)) * (2::rat) powi (ex - 52)"
    using u by (simp only: mult_le_cancel_right_pos)
  also have "\<dots> = c" using cm u by (simp add: field_simps)
  finally have r: "of_int (roundHalfEven (x / 2 powi (ex - 52))) * 2 powi (ex - 52) \<le> c" .
  with small have "\<not> (2::rat) ^ 1024 \<le>
      (of_int (roundHalfEven (x / 2 powi (ex - 52))) :: rat) * 2 powi (ex - 52)"
    by linarith
  with fl_positive_unfold [OF True]
  have "fl x = Finite (of_int (roundHalfEven (x / 2 powi (ex - 52))) * 2 powi (ex - 52))"
    by (simp only: ex_def if_False)
  with r show ?thesis by simp
qed

lemma fl_ge_double:
  assumes "0 < c" and "fl c = Finite c" and "c \<le> x"
  shows "js_le (Finite c) (fl x)"
proof -
  from assms have x: "0 < x" by simp
  define ex where "ex = max (expo x) (- 1022)"
  define ec where "ec = max (expo c) (- 1022)"
  define mc where "mc = roundHalfEven (c / 2 powi (ec - 52))"
  define r :: rat where "r = of_int (roundHalfEven (x / 2 powi (ex - 52))) * 2 powi (ex - 52)"
  from expo_mono [OF assms(1) assms(3)] have le: "ec \<le> ex" by (simp add: ex_def ec_def)
  from assms(2) fl_positive_unfold [OF assms(1)]
  have c: "c = of_int mc * 2 powi (ec - 52)"
    by (simp_all add: ec_def mc_def split: if_splits)
  have u: "(0::rat) < 2 powi (ex - 52)" by simp
  have "c \<le> r"
  proof (cases "ec = ex")
    case True
    from c u have "c / 2 powi (ex - 52) = of_int mc" by (simp add: True)
    moreover from assms(3) u have "c / 2 powi (ex - 52) \<le> x / 2 powi (ex - 52)"
      by (simp add: divide_right_mono)
    ultimately have "mc \<le> roundHalfEven (x / 2 powi (ex - 52))"
      by (intro roundHalfEven_ge_int) simp
    then have "(of_int mc :: rat) \<le> of_int (roundHalfEven (x / 2 powi (ex - 52)))"
      by (simp only: of_int_le_iff)
    then have "of_int mc * 2 powi (ex - 52) \<le> r"
      unfolding r_def using u by (simp only: mult_le_cancel_right_pos)
    with c True show ?thesis by simp
  next
    case False
    with le have lt: "ec + 1 \<le> ex" by simp
    then have "- 1022 < ex" by (simp add: ec_def)
    then have ex: "ex = expo x" by (simp add: ex_def split: if_splits)
    from expo_bounds [OF x] have "2 powi ex \<le> x" by (simp add: ex)
    then have "2 powi ex / 2 powi (ex - 52) \<le> x / 2 powi (ex - 52)"
      using u by (simp add: divide_right_mono)
    moreover have "(2::rat) powi ex = 2 powi 52 * 2 powi (ex - 52)"
      using power_int_add [of "2::rat" 52 "ex - 52"] by simp
    then have "(2::rat) powi ex / 2 powi (ex - 52) = of_int (2 ^ 52)"
      using u by simp
    ultimately have "2 ^ 52 \<le> roundHalfEven (x / 2 powi (ex - 52))"
      by (intro roundHalfEven_ge_int) simp
    then have "(of_int (2 ^ 52) :: rat) \<le> of_int (roundHalfEven (x / 2 powi (ex - 52)))"
      by (simp only: of_int_le_iff)
    then have "of_int (2 ^ 52) * 2 powi (ex - 52) \<le> r"
      unfolding r_def using u by (simp only: mult_le_cancel_right_pos)
    moreover have "(of_int (2 ^ 52) :: rat) * 2 powi (ex - 52) = 2 powi ex"
      using power_int_add [of "2::rat" 52 "ex - 52"] by simp
    ultimately have "2 powi ex \<le> r" by simp
    moreover have "(2::rat) powi (ec + 1) \<le> 2 powi ex"
      using lt by (rule power_int_increasing) simp
    moreover have "expo c + 1 \<le> ec + 1" by (simp add: ec_def)
    then have "(2::rat) powi (expo c + 1) \<le> 2 powi (ec + 1)"
      by (rule power_int_increasing) simp
    ultimately show ?thesis using expo_bounds [OF assms(1)] by linarith
  qed
  moreover from fl_positive_unfold [OF x]
  have "fl x = PosInf \<or> fl x = Finite r"
    by (simp only: ex_def [symmetric] r_def [symmetric]) (simp split: if_splits)
  ultimately show ?thesis by auto
qed

lemma fl_28: "fl 28 = Finite 28"
  using fl_eval(1) [of 28 4 7881299347898368] by simp

lemma fl_36: "fl 36 = Finite 36"
  using fl_eval(1) [of 36 5 5066549580791808] by simp

lemma fl_449_16: "fl (449 / 16) = Finite (449 / 16)"
  using fl_eval(1) [of "449 / 16" 4 7898891533942784] by simp

lemma fl_577_16: "fl (577 / 16) = Finite (577 / 16)"
  using fl_eval(1) [of "577 / 16" 5 5075345673814016] by simp

text \<open>
  Reading a percentage with one decimal back as a double leaves it on its side of 28
  and of 36.
\<close>

lemma parseFloat_threshold:
  assumes "t \<le> 28 \<or> 281 / 10 \<le> t" and "t \<le> 36 \<or> 361 / 10 \<le> t"
  shows "js_le (parseFloat (Finite t)) (Finite 28) \<longleftrightarrow> t \<le> 28"
    and "js_le (parseFloat (Finite t)) (Finite 36) \<longleftrightarrow> t \<le> 36"
proof -
  have up: "\<not> js_le (fl t) (Finite c)" if "c < d" and "d \<le> t" and "0 < d"
    and "fl d = Finite d" for c d
  proof -
    from fl_ge_double [OF that(3) that(4) that(2)] that(1) fl_not_NaN [of t]
    show ?thesis by (cases "fl t") auto
  qed
  show "js_le (parseFloat (Finite t)) (Finite 28) \<longleftrightarrow> t \<le> 28"
  proof (cases "t \<le> 28")
    case True
    with fl_le_double [of 28 t] fl_28 show ?thesis by simp
  next
    case False
    with assms(1) have "449 / 16 \<le> t" by simp
    from up [of 28 "449 / 16", OF _ this _ fl_449_16] False show ?thesis by simp
  qed
  show "js_le (parseFloat (Finite t)) (Finite 36) \<longleftrightarrow> t \<le> 36"
  proof (cases "t \<le> 36")
    case True
    with fl_le_double [of 36 t] fl_36 show ?thesis by simp
  next
    case False
    with assms(2) have "577 / 16 \<le> t" by simp
    from up [of 36 "577 / 16", OF _ this _ fl_577_16] False show ?thesis by simp
  qed
qed

section \<open>Properties of the derivations of ResultsPage\<close>

lemma floor_rat_numeral_divide [simp]:
  "\<lfloor>numeral a / numeral b :: rat\<rfloor> = numeral a div numeral b"
  by (metis floor_divide_of_int_eq of_int_numeral)

lemma floor_rat_neg_numeral_divide [simp]:
  "\<lfloor>- (numeral a / numeral b) :: rat\<rfloor> = - numeral a div numeral b"
  by (metis divide_minus_left floor_divide_of_int_eq of_int_neg_numeral of_int_numeral)

lemma tenths_near:
  fixes y :: rat
  shows "\<bar>of_int \<lfloor>y * 10 + 1 / 2\<rfloor> / 10 - y\<bar> \<le> 1 / 20"
proof -
  define F :: rat where "F = of_int \<lfloor>y * 10 + 1 / 2\<rfloor>"
  have "F \<le> y * 10 + 1 / 2" and "y * 10 + 1 / 2 < F + 1"
    unfolding F_def by linarith+
  then have "F / 10 - y \<le> 1 / 20" and "- (F / 10 - y) \<le> 1 / 20" by linarith+
  then have "\<bar>F / 10 - y\<bar> \<le> 1 / 20" by (rule abs_leI)
  then show ?thesis by (simp add: F_def)
qed

text \<open>
  \<^verbatim>\<open>toFixed(1)\<close> of a finite number is at most a twentieth away from it, and is a number
  of tenths below \<open>10\<^sup>2\<^sup>1\<close>. \<^verbatim>\<open>Math.round\<close> of a finite number is the integer \<open>n\<close> with
  \<open>n \<le> x + 1/2 < n + 1\<close>.
\<close>

lemma toFixed1_Finite:
  "\<exists>t. toFixed1 (Finite x) = Finite t \<and> \<bar>t - x\<bar> \<le> 1 / 20 \<and>
       (\<bar>x\<bar> < 10 ^ 21 \<longrightarrow> (\<exists>k::int. t = of_int k / 10))"
proof (cases "10 ^ 21 \<le> \<bar>x\<bar>")
  case True
  then show ?thesis by simp
next
  case small: False
  show ?thesis
  proof (cases "x < 0")
    case True
    have "\<bar>- (of_int \<lfloor>(- x) * 10 + 1 / 2\<rfloor> / 10) - x\<bar> =
          \<bar>of_int \<lfloor>(- x) * 10 + 1 / 2\<rfloor> / 10 - (- x)\<bar>"
      by (simp add: abs_minus_commute)
    with tenths_near [of "- x"]
    have n: "\<bar>- (of_int \<lfloor>(- x) * 10 + 1 / 2\<rfloor> / 10) - x\<bar> \<le> 1 / 20" by simp
    have k: "\<exists>k::int. - (of_int \<lfloor>(- x) * 10 + 1 / 2\<rfloor> / 10) = (of_int k :: rat) / 10"
      by (rule exI [of _ "- \<lfloor>(- x) * 10 + 1 / 2\<rfloor>"]) simp
    have "toFixed1 (Finite x) = Finite (- (of_int \<lfloor>(- x) * 10 + 1 / 2\<rfloor> / 10))"
      using small True by simp
    with n k show ?thesis by blast
  next
    case False
    have k: "\<exists>k::int. of_int \<lfloor>x * 10 + 1 / 2\<rfloor> / 10 = (of_int k :: rat) / 10"
      by (rule exI [of _ "\<lfloor>x * 10 + 1 / 2\<rfloor>"]) simp
    have "toFixed1 (Finite x) = Finite (of_int \<lfloor>x * 10 + 1 / 2\<rfloor> / 10)"
      using small False by simp
    with tenths_near [of x] k show ?thesis by blast
  qed
qed

lemma Math_round_Finite:
  "\<exists>n::int. Math_round (Finite y) = Finite (of_int n) \<and>
       of_int n \<le> y + 1 / 2 \<and> y + 1 / 2 < of_int n + 1"
proof -
  have "of_int \<lfloor>y + 1 / 2\<rfloor> \<le> y + 1 / 2 \<and> y + 1 / 2 < of_int \<lfloor>y + 1 / 2\<rfloor> + 1"
    by linarith
  then show ?thesis by (intro exI [of _ "\<lfloor>y + 1 / 2\<rfloor>"]) simp
qed

lemma js_divide_Finite: "b \<noteq> 0 \<Longrightarrow> js_divide (Finite a) (Finite b) = fl (a / b)"
  by simp

lemma getDtiRisk_label:
  "(label (getDtiRisk (Finite r)) = ''Low risk'' \<longleftrightarrow> r \<le> 28) \<and>
   (label (getDtiRisk (Finite r)) = ''Moderate risk'' \<longleftrightarrow> 28 < r \<and> r \<le> 36) \<and>
   (label (getDtiRisk (Finite r)) = ''High risk'' \<longleftrightarrow> 36 < r) \<and>
   label (getDtiRisk PosInf) = ''High risk'' \<and>
   label (getDtiRisk NegInf) = ''Low risk'' \<and>
   label (getDtiRisk NaN) = ''High risk''"
  by (auto simp: getDtiRisk_def)

text \<open>
  What \<^verbatim>\<open>toFixed(1)\<close> prints lies on a definite side of 28.1 and of 36.1, so the label
  computed from the string read back is the label of the percentage shown.
\<close>

lemma toFixed1_sides:
  assumes "toFixed1 (Finite x) = Finite t"
  shows "(t \<le> 28 \<or> 281 / 10 \<le> t) \<and> (t \<le> 36 \<or> 361 / 10 \<le> t)"
proof (cases "10 ^ 21 \<le> \<bar>x\<bar>")
  case True
  with assms have "t = x" by simp
  with True show ?thesis by (cases "x < 0") simp_all
next
  case False
  from toFixed1_Finite [of x] assms False
  obtain k :: int where k: "t = of_int k / 10" by auto
  have a: "t \<le> 28 \<or> 281 / 10 \<le> t"
  proof (cases "k \<le> 280")
    case True
    then have "(of_int k :: rat) \<le> of_int 280" by (simp only: of_int_le_iff)
    then show ?thesis by (simp add: k)
  next
    case False
    then have "281 \<le> k" by simp
    then have "(of_int 281 :: rat) \<le> of_int k" by (simp only: of_int_le_iff)
    then show ?thesis by (simp add: k)
  qed
  have b: "t \<le> 36 \<or> 361 / 10 \<le> t"
  proof (cases "k \<le> 360")
    case True
    then have "(of_int k :: rat) \<le> of_int 360" by (simp only: of_int_le_iff)
    then show ?thesis by (simp add: k)
  next
    case False
    then have "361 \<le> k" by simp
    then have "(of_int 361 :: rat) \<le> of_int k" by (simp only: of_int_le_iff)
    then show ?thesis by (simp add: k)
  qed
  from a b show ?thesis ..
qed

lemma shown_risk:
  assumes "toFixed1 (Finite x) = Finite t"
  shows "(label (getDtiRisk (parseFloat (Finite t))) = ''Low risk'' \<longleftrightarrow> t \<le> 28) \<and>
         (label (getDtiRisk (parseFloat (Finite t))) = ''Moderate risk'' \<longleftrightarrow>
            28 < t \<and> t \<le> 36) \<and>
         (label (getDtiRisk (parseFloat (Finite t))) = ''High risk'' \<longleftrightarrow> 36 < t)"
proof -
  from toFixed1_sides [OF assms]
  have s: "t \<le> 28 \<or> 281 / 10 \<le> t" "t \<le> 36 \<or> 361 / 10 \<le> t" by simp_all
  note p = parseFloat_threshold [OF s]
  show ?thesis
    unfolding getDtiRisk_def by (auto simp only: p if_True if_False Badge.simps
        split: if_splits) 
qed

text \<open>
  What the page computes for a payload that has a session id and an
  \<^verbatim>\<open>analysis_summary\<close>, and that it computes a view only for such a payload.
\<close>

lemma ResultsPage_view:
  assumes "session_id p = Some sid" and "sid \<noteq> []" and "analysis_summary p = Some a"
  shows "ResultsPage (Some p) = Inr (Some
     \<lparr>view_loan_score = orDefault 0 (loan_score p),
      view_loanVerdict = getLoanVerdict (orDefault 0 (loan_score p)),
      view_net_cash_flow = orDefault 0 (net_cash_flow a),
      view_total_deposits = orDefault 0 (total_deposits a),
      view_total_withdrawals = orDefault 0 (total_withdrawals a),
      view_netCaption = netCaption (orDefault 0 (net_cash_flow a))
         (orDefault 0 (total_deposits a)) (orDefault 0 (total_withdrawals a)),
      view_dtiRatio = dtiRatio (orDefault 0 (debt_to_income a)),
      view_dtiRisk = getDtiRisk (parseFloat (dtiRatio (orDefault 0 (debt_to_income a)))),
      view_monthlyData = monthlyData (last6 (orDefault [] (monthly_flows a))),
      view_balanceData = balanceData (last6 (orDefault [] (monthly_flows a))),
      view_spendingData = spendingData (orDefault [] (spending_by_category p))
         (orDefault 0 (total_withdrawals a)),
      view_issues = orDefault [] (data_issues p)\<rparr>)"
  using assms by (simp add: ResultsPage_def orDefault_def Let_def)

lemma ResultsPage_rendered:
  assumes "ResultsPage (Some p) = Inr (Some v)"
  shows "\<exists>sid a. session_id p = Some sid \<and> sid \<noteq> [] \<and> analysis_summary p = Some a"
  using assms
  by (auto simp: ResultsPage_def orDefault_def Let_def split: option.splits if_splits)

lemma ResultsPage_no_summary:
  assumes "session_id p = Some sid" and "sid \<noteq> []" and "analysis_summary p = None"
  shows "ResultsPage (Some p) = Inl TypeError"
  using assms by (simp add: ResultsPage_def orDefault_def Let_def)

lemma rendered_view:
  assumes "analysis_summary p = Some a" and "ResultsPage (Some p) = Inr (Some v)"
  shows "view_loan_score v = orDefault 0 (loan_score p)"
    and "view_loanVerdict v = getLoanVerdict (orDefault 0 (loan_score p))"
    and "view_netCaption v = netCaption (orDefault 0 (net_cash_flow a))
           (orDefault 0 (total_deposits a)) (orDefault 0 (total_withdrawals a))"
    and "view_dtiRatio v = dtiRatio (orDefault 0 (debt_to_income a))"
    and "view_dtiRisk v =
           getDtiRisk (parseFloat (dtiRatio (orDefault 0 (debt_to_income a))))"
    and "view_monthlyData v = monthlyData (last6 (orDefault [] (monthly_flows a)))"
    and "view_balanceData v = balanceData (last6 (orDefault [] (monthly_flows a)))"
    and "view_spendingData v = spendingData (orDefault [] (spending_by_category p))
           (orDefault 0 (total_withdrawals a))"
    and "view_issues v = orDefault [] (data_issues p)"
proof -
  from ResultsPage_rendered [OF assms(2)] assms(1)
  obtain sid where "session_id p = Some sid" and "sid \<noteq> []" by auto
  from ResultsPage_view [OF this assms(1)] assms(2)
  have v: "v = \<lparr>view_loan_score = orDefault 0 (loan_score p),
      view_loanVerdict = getLoanVerdict (orDefault 0 (loan_score p)),
      view_net_cash_flow = orDefault 0 (net_cash_flow a),
      view_total_deposits = orDefault 0 (total_deposits a),
      view_total_withdrawals = orDefault 0 (total_withdrawals a),
      view_netCaption = netCaption (orDefault 0 (net_cash_flow a))
         (orDefault 0 (total_deposits a)) (orDefault 0 (total_withdrawals a)),
      view_dtiRatio = dtiRatio (orDefault 0 (debt_to_income a)),
      view_dtiRisk = getDtiRisk (parseFloat (dtiRatio (orDefault 0 (debt_to_income a)))),
      view_monthlyData = monthlyData (last6 (orDefault [] (monthly_flows a))),
      view_balanceData = balanceData (last6 (orDefault [] (monthly_flows a))),
      view_spendingData = spendingData (orDefault [] (spending_by_category p))
         (orDefault 0 (total_withdrawals a)),
      view_issues = orDefault [] (data_issues p)\<rparr>"
    by simp
  show "view_loan_score v = orDefault 0 (loan_score p)" by (simp add: v)
  show "view_loanVerdict v = getLoanVerdict (orDefault 0 (loan_score p))" by (simp add: v)
  show "view_netCaption v = netCaption (orDefault 0 (net_cash_flow a))
           (orDefault 0 (total_deposits a)) (orDefault 0 (total_withdrawals a))"
    by (simp add: v)
  show "view_dtiRatio v = dtiRatio (orDefault 0 (debt_to_income a))" by (simp add: v)
  show "view_dtiRisk v =
           getDtiRisk (parseFloat (dtiRatio (orDefault 0 (debt_to_income a))))"
    by (simp add: v)
  show "view_monthlyData v = monthlyData (last6 (orDefault [] (monthly_flows a)))"
    by (simp add: v)
  show "view_balanceData v = balanceData (last6 (orDefault [] (monthly_flows a)))"
    by (simp add: v)
  show "view_spendingData v = spendingData (orDefault [] (spending_by_category p))
           (orDefault 0 (total_withdrawals a))"
    by (simp add: v)
  show "view_issues v = orDefault [] (data_issues p)" by (simp add: v)
qed

lemma sample_rendered:
  "analysis_summary sample_result = Some sample_summary \<and>
   (\<exists>v. ResultsPage (Some sample_result) = Inr (Some v))"
proof -
  have a: "analysis_summary sample_result = Some sample_summary"
    and s: "session_id sample_result = Some ''job-1''"
    by (simp_all add: sample_result_def)
  have "''job-1'' \<noteq> []" by simp
  from ResultsPage_view [OF s this a] a show ?thesis by blast
qed

text \<open>
  C2. For a payload that has a session id but no \<^verbatim>\<open>analysis_summary\<close>, the page does
  not reach its defaults: the read of \<^verbatim>\<open>finalResult.analysis_summary.monthly_flows\<close>
  throws.
\<close>

theorem C2_missing_summary_raises:
  "ResultsPage (Some \<lparr>session_id = Some ''abc'', loan_amount_requested = None,
      analysis_summary = None, loan_score = Some 82, summary_paragraph = None,
      spending_by_category = None, data_issues = None\<rparr>) = Inl TypeError"
  by (simp add: ResultsPage_def orDefault_def Let_def)

text \<open>
  C5, as the code has it. The product \<^verbatim>\<open>debt_to_income * 100\<close> is a double product:
  for 0.0015 (the double that JSON gives for it) it is just below 0.15, so the page shows
  0.1, which is more than a twentieth away from the exact product, whose rounding to one
  decimal is 0.2.
\<close>

theorem C5_exact_product_counterexample:
  "fl (15 / 10000) = Finite (3458764513820541 / 2 ^ 61) \<and>
   dtiRatio (3458764513820541 / 2 ^ 61) = Finite (1 / 10) \<and>
   (1 / 20 :: rat) < \<bar>1 / 10 - 3458764513820541 / 2 ^ 61 * 100\<bar>"
proof -
  have "(15 / 10000 :: rat) = 3 / 2000" by simp
  then have a: "fl (15 / 10000) = Finite (3458764513820541 / 2 ^ 61)"
    by (simp only: fl_3_2000)
  have "dtiRatio (3458764513820541 / 2 ^ 61) = toFixed1 (Finite (5404319552844595 / 2 ^ 55))"
    by (simp only: dtiRatio_def js_times.simps fl_d0_100)
  also have "\<dots> = Finite (1 / 10)" by simp
  finally have b: "dtiRatio (3458764513820541 / 2 ^ 61) = Finite (1 / 10)" .
  have c: "(1 / 20 :: rat) < \<bar>1 / 10 - 3458764513820541 / 2 ^ 61 * 100\<bar>" by simp
  show ?thesis by (intro conjI) (rule a b c)+
qed

text \<open>
  C5, amended. The DTI percentage shown is the double product
  \<^verbatim>\<open>debt_to_income * 100\<close> (the exact product rounded to the nearest double: within
  \<open>2\<^sup>-\<^sup>5\<^sup>3\<close> of its magnitude, or \<open>2\<^sup>-\<^sup>1\<^sup>0\<^sup>7\<^sup>5\<close> in the subnormal range) rounded to one decimal: at
  most a twentieth away from that double, and a number of tenths below \<open>10\<^sup>2\<^sup>1\<close>; when the
  product overflows, the infinity is shown. The label of \<^verbatim>\<open>getDtiRisk\<close> is "Low risk"
  exactly for values up to 28, "Moderate risk" exactly for values above 28 and up to 36,
  "High risk" exactly for values above 36 (plus infinity included, minus infinity being
  low); so 28.0 is low, 28.1 moderate, 36.0 moderate and 36.1 high. On a rendered page the
  percentage is that of the payload's \<^verbatim>\<open>debt_to_income\<close> (0 when missing) and the label
  is that of the percentage shown, read back by \<^verbatim>\<open>parseFloat\<close>: reading back does not
  move it across 28 or 36.
\<close>

theorem C5_dti:
  "dtiRatio d = toFixed1 (fl (d * 100)) \<and>
   (fl (d * 100) = Finite p \<longrightarrow>
      \<bar>p - d * 100\<bar> \<le> max (\<bar>d * 100\<bar> / 2 ^ 53) (2 powi (- 1075)) \<and>
      (\<exists>t. dtiRatio d = Finite t \<and> \<bar>t - p\<bar> \<le> 1 / 20 \<and>
           (\<bar>p\<bar> < 10 ^ 21 \<longrightarrow> (\<exists>k::int. t = of_int k / 10)) \<and>
           (label (getDtiRisk (parseFloat (Finite t))) = ''Low risk'' \<longleftrightarrow> t \<le> 28) \<and>
           (label (getDtiRisk (parseFloat (Finite t))) = ''Moderate risk'' \<longleftrightarrow>
              28 < t \<and> t \<le> 36) \<and>
           (label (getDtiRisk (parseFloat (Finite t))) = ''High risk'' \<longleftrightarrow> 36 < t))) \<and>
   (fl (d * 100) = PosInf \<longrightarrow> dtiRatio d = PosInf) \<and>
   (fl (d * 100) = NegInf \<longrightarrow> dtiRatio d = NegInf) \<and>
   fl (d * 100) \<noteq> NaN \<and>
   (label (getDtiRisk (Finite r)) = ''Low risk'' \<longleftrightarrow> r \<le> 28) \<and>
   (label (getDtiRisk (Finite r)) = ''Moderate risk'' \<longleftrightarrow> 28 < r \<and> r \<le> 36) \<and>
   (label (getDtiRisk (Finite r)) = ''High risk'' \<longleftrightarrow> 36 < r) \<and>
   label (getDtiRisk PosInf) = ''High risk'' \<and>
   label (getDtiRisk NegInf) = ''Low risk'' \<and>
   label (getDtiRisk (Finite 28)) = ''Low risk'' \<and>
   label (getDtiRisk (Finite (281 / 10))) = ''Moderate risk'' \<and>
   label (getDtiRisk (Finite 36)) = ''Moderate risk'' \<and>
   label (getDtiRisk (Finite (361 / 10))) = ''High risk'' \<and>
   (analysis_summary pl = Some a \<and> ResultsPage (Some pl) = Inr (Some v) \<longrightarrow>
      view_dtiRatio v = dtiRatio (orDefault 0 (debt_to_income a)) \<and>
      view_dtiRisk v = getDtiRisk (parseFloat (view_dtiRatio v)))"
proof -
  have def: "dtiRatio d = toFixed1 (fl (d * 100))"
    by (simp add: dtiRatio_def)
  have fin: "\<bar>p - d * 100\<bar> \<le> max (\<bar>d * 100\<bar> / 2 ^ 53) (2 powi (- 1075)) \<and>
      (\<exists>t. dtiRatio d = Finite t \<and> \<bar>t - p\<bar> \<le> 1 / 20 \<and>
           (\<bar>p\<bar> < 10 ^ 21 \<longrightarrow> (\<exists>k::int. t = of_int k / 10)) \<and>
           (label (getDtiRisk (parseFloat (Finite t))) = ''Low risk'' \<longleftrightarrow> t \<le> 28) \<and>
           (label (getDtiRisk (parseFloat (Finite t))) = ''Moderate risk'' \<longleftrightarrow>
              28 < t \<and> t \<le> 36) \<and>
           (label (getDtiRisk (parseFloat (Finite t))) = ''High risk'' \<longleftrightarrow> 36 < t))"
    if f: "fl (d * 100) = Finite p"
  proof
    show "\<bar>p - d * 100\<bar> \<le> max (\<bar>d * 100\<bar> / 2 ^ 53) (2 powi (- 1075))"
      using f by (rule fl_error_bound)
    from toFixed1_Finite [of p] obtain t
      where t: "toFixed1 (Finite p) = Finite t" "\<bar>t - p\<bar> \<le> 1 / 20"
        "\<bar>p\<bar> < 10 ^ 21 \<longrightarrow> (\<exists>k::int. t = of_int k / 10)"
      by blast
    from t(1) have "dtiRatio d = Finite t" unfolding def f .
    with t(2,3) shown_risk [OF t(1)]
    show "\<exists>t. dtiRatio d = Finite t \<and> \<bar>t - p\<bar> \<le> 1 / 20 \<and>
           (\<bar>p\<bar> < 10 ^ 21 \<longrightarrow> (\<exists>k::int. t = of_int k / 10)) \<and>
           (label (getDtiRisk (parseFloat (Finite t))) = ''Low risk'' \<longleftrightarrow> t \<le> 28) \<and>
           (label (getDtiRisk (parseFloat (Finite t))) = ''Moderate risk'' \<longleftrightarrow>
              28 < t \<and> t \<le> 36) \<and>
           (label (getDtiRisk (parseFloat (Finite t))) = ''High risk'' \<longleftrightarrow> 36 < t)"
      by blast
  qed
  have pinf: "dtiRatio d = PosInf" if "fl (d * 100) = PosInf"
    unfolding def that by simp
  have ninf: "dtiRatio d = NegInf" if "fl (d * 100) = NegInf"
    unfolding def that by simp
  note nan = fl_not_NaN [of "d * 100"]
  note b = getDtiRisk_label [of r]
  have e: "label (getDtiRisk (Finite 28)) = ''Low risk'' \<and>
           label (getDtiRisk (Finite (281 / 10))) = ''Moderate risk'' \<and>
           label (getDtiRisk (Finite 36)) = ''Moderate risk'' \<and>
           label (getDtiRisk (Finite (361 / 10))) = ''High risk''"
    by (simp add: getDtiRisk_def)
  have pg: "view_dtiRatio v = dtiRatio (orDefault 0 (debt_to_income a)) \<and>
            view_dtiRisk v = getDtiRisk (parseFloat (view_dtiRatio v))"
    if "analysis_summary pl = Some a" and "ResultsPage (Some pl) = Inr (Some v)"
    using rendered_view(4,5) [OF that] by simp
  from def fin pinf ninf nan b e pg show ?thesis by blast
qed

theorem C5_dti_witness:
  "analysis_summary sample_result = Some sample_summary \<and>
   fl (1 / 8 * 100) = Finite (25 / 2) \<and>
   (\<exists>v. ResultsPage (Some sample_result) = Inr (Some v) \<and>
        view_dtiRatio v = Finite (25 / 2) \<and> label (view_dtiRisk v) = ''Low risk'')"
proof -
  from sample_rendered obtain v
    where a: "analysis_summary sample_result = Some sample_summary"
      and r: "ResultsPage (Some sample_result) = Inr (Some v)" by blast
  have "(1 / 8 * 100 :: rat) = 25 / 2" by simp
  then have f: "fl (1 / 8 * 100) = Finite (25 / 2)" by (simp only: fl_25_2)
  note c = C5_dti [of "1 / 8" "25 / 2" "25 / 2" sample_result sample_summary v]
  from c a r
  have x: "view_dtiRatio v = dtiRatio (orDefault 0 (debt_to_income sample_summary))"
    and y: "view_dtiRisk v = getDtiRisk (parseFloat (view_dtiRatio v))"
    by blast+
  from c have z: "label (getDtiRisk (Finite (25 / 2))) = ''Low risk''"
    by simp
  from c have "dtiRatio (1 / 8) = toFixed1 (fl (1 / 8 * 100))" by blast
  also have "\<dots> = toFixed1 (Finite (25 / 2))" by (simp only: f)
  also have "\<dots> = Finite (25 / 2)" by simp
  finally have w: "dtiRatio (1 / 8) = Finite (25 / 2)" .
  have "orDefault 0 (debt_to_income sample_summary) = 1 / 8"
    by (simp add: sample_summary_def orDefault_def)
  with x w have d: "view_dtiRatio v = Finite (25 / 2)" by simp
  have "parseFloat (Finite (25 / 2)) = Finite (25 / 2)"
    by (simp only: parseFloat.simps fl_25_2)
  with y d z have l: "label (view_dtiRisk v) = ''Low risk''" by simp
  show ?thesis
    by (intro conjI exI [of _ v]) (rule a f r d l)+
qed

text \<open>
  C6. The label of \<^verbatim>\<open>getLoanVerdict\<close> is "Likely Approved" exactly for scores of at
  least 80, "Requires Review" exactly for scores of at least 60 and below 80, and
  "High Risk" exactly for scores below 60, for every number: nothing is clamped to
  \<open>[0, 100]\<close>, so 150 is likely approved and -5 is high risk. 79 requires review, 80 is
  likely approved, 59 is high risk, 60 requires review. On a rendered page the verdict is
  that of the payload's \<^verbatim>\<open>loan_score\<close> (0 when missing), which is shown as it is.
\<close>

theorem C6_loan_verdict:
  "(label (getLoanVerdict s) = ''Likely Approved'' \<longleftrightarrow> 80 \<le> s) \<and>
   (label (getLoanVerdict s) = ''Requires Review'' \<longleftrightarrow> 60 \<le> s \<and> s < 80) \<and>
   (label (getLoanVerdict s) = ''High Risk'' \<longleftrightarrow> s < 60) \<and>
   label (getLoanVerdict 79) = ''Requires Review'' \<and>
   label (getLoanVerdict 80) = ''Likely Approved'' \<and>
   label (getLoanVerdict 59) = ''High Risk'' \<and>
   label (getLoanVerdict 60) = ''Requires Review'' \<and>
   label (getLoanVerdict 150) = ''Likely Approved'' \<and>
   label (getLoanVerdict (- 5)) = ''High Risk'' \<and>
   (analysis_summary p = Some a \<and> ResultsPage (Some p) = Inr (Some v) \<longrightarrow>
      view_loan_score v = orDefault 0 (loan_score p) \<and>
      view_loanVerdict v = getLoanVerdict (orDefault 0 (loan_score p)))"
proof -
  have b: "(label (getLoanVerdict s) = ''Likely Approved'' \<longleftrightarrow> 80 \<le> s) \<and>
           (label (getLoanVerdict s) = ''Requires Review'' \<longleftrightarrow> 60 \<le> s \<and> s < 80) \<and>
           (label (getLoanVerdict s) = ''High Risk'' \<longleftrightarrow> s < 60)"
    by (auto simp: getLoanVerdict_def)
  have e: "label (getLoanVerdict 79) = ''Requires Review'' \<and>
           label (getLoanVerdict 80) = ''Likely Approved'' \<and>
           label (getLoanVerdict 59) = ''High Risk'' \<and>
           label (getLoanVerdict 60) = ''Requires Review'' \<and>
           label (getLoanVerdict 150) = ''Likely Approved'' \<and>
           label (getLoanVerdict (- 5)) = ''High Risk''"
    by (simp add: getLoanVerdict_def)
  have pg: "view_loan_score v = orDefault 0 (loan_score p) \<and>
            view_loanVerdict v = getLoanVerdict (orDefault 0 (loan_score p))"
    if "analysis_summary p = Some a" and "ResultsPage (Some p) = Inr (Some v)"
    using rendered_view(1,2) [OF that] by simp
  from b e pg show ?thesis by blast
qed

theorem C6_loan_verdict_witness:
  "analysis_summary sample_result = Some sample_summary \<and>
   (\<exists>v. ResultsPage (Some sample_result) = Inr (Some v) \<and>
        view_loan_score v = 82 \<and> label (view_loanVerdict v) = ''Likely Approved'')"
proof -
  from sample_rendered obtain v
    where a: "analysis_summary sample_result = Some sample_summary"
      and r: "ResultsPage (Some sample_result) = Inr (Some v)" by blast
  note c = C6_loan_verdict [of 82 sample_result sample_summary v]
  from c a r
  have x: "view_loan_score v = orDefault 0 (loan_score sample_result)"
    and y: "view_loanVerdict v = getLoanVerdict (orDefault 0 (loan_score sample_result))"
    by blast+
  from c have z: "label (getLoanVerdict 82) = ''Likely Approved''"
    by simp
  have w: "orDefault 0 (loan_score sample_result) = 82"
    by (simp add: sample_result_def orDefault_def)
  from x w have d: "view_loan_score v = 82" by (rule trans)
  have l: "label (view_loanVerdict v) = ''Likely Approved''"
    unfolding y w by (rule z)
  from a r d l show ?thesis by blast
qed

text \<open>
  C7. Both chart series are built from the last six entries of \<^verbatim>\<open>monthly_flows\<close> in
  their order: \<^verbatim>\<open>last6\<close> is the suffix of the entries of length \<open>min 6 n\<close> (of eight
  months, the third to the eighth), the bar series carries each entry's month, deposits
  and withdrawals, and the line series its month and end balance as it is, negative or
  not. Without entries both series are empty. On a rendered page the two series are
  those of the payload's \<^verbatim>\<open>monthly_flows\<close> (no entries when missing).
\<close>

theorem C7_monthly_series:
  "length (last6 es) = min 6 (length es) \<and>
   es = take (length es - 6) es @ last6 es \<and>
   last6 [e1, e2, e3, e4, e5, e6, e7, e8] = [e3, e4, e5, e6, e7, e8] \<and>
   map month (monthlyData xs) = map fst xs \<and>
   map bar_deposits (monthlyData xs) = map (\<lambda>(m, f). deposits f) xs \<and>
   map bar_withdrawals (monthlyData xs) = map (\<lambda>(m, f). withdrawals f) xs \<and>
   map balance_month (balanceData xs) = map fst xs \<and>
   map balance (balanceData xs) = map (\<lambda>(m, f). end_balance f) xs \<and>
   monthlyData (last6 []) = [] \<and> balanceData (last6 []) = [] \<and>
   (analysis_summary p = Some a \<and> ResultsPage (Some p) = Inr (Some v) \<longrightarrow>
      view_monthlyData v = monthlyData (last6 (orDefault [] (monthly_flows a))) \<and>
      view_balanceData v = balanceData (last6 (orDefault [] (monthly_flows a))))"
proof -
  have l1: "length (last6 es) = min 6 (length es)"
    by (simp add: last6_def)
  have l2: "es = take (length es - 6) es @ last6 es"
    by (simp add: last6_def)
  have e: "last6 [e1, e2, e3, e4, e5, e6, e7, e8] = [e3, e4, e5, e6, e7, e8]"
    by (simp add: last6_def)
  have m1: "map month (monthlyData xs) = map fst xs"
    by (simp add: monthlyData_def split_def comp_def)
  have m2: "map bar_deposits (monthlyData xs) = map (\<lambda>(m, f). deposits f) xs"
    by (simp add: monthlyData_def split_def comp_def)
  have m3: "map bar_withdrawals (monthlyData xs) = map (\<lambda>(m, f). withdrawals f) xs"
    by (simp add: monthlyData_def split_def comp_def)
  have b1: "map balance_month (balanceData xs) = map fst xs"
    by (simp add: balanceData_def split_def comp_def)
  have b2: "map balance (balanceData xs) = map (\<lambda>(m, f). end_balance f) xs"
    by (simp add: balanceData_def split_def comp_def)
  have n1: "monthlyData (last6 []) = []"
    by (simp add: last6_def monthlyData_def)
  have n2: "balanceData (last6 []) = []"
    by (simp add: last6_def balanceData_def)
  have pg: "analysis_summary p = Some a \<and> ResultsPage (Some p) = Inr (Some v) \<longrightarrow>
      view_monthlyData v = monthlyData (last6 (orDefault [] (monthly_flows a))) \<and>
      view_balanceData v = balanceData (last6 (orDefault [] (monthly_flows a)))"
    using rendered_view(6,7) [of p a v] by simp
  show ?thesis
    by (intro conjI) (rule l1 l2 e m1 m2 m3 b1 b2 n1 n2 pg)+
qed

theorem C7_monthly_series_witness:
  "analysis_summary sample_result = Some sample_summary \<and>
   (\<exists>v. ResultsPage (Some sample_result) = Inr (Some v) \<and>
        map month (view_monthlyData v) =
          [''2024-03'', ''2024-04'', ''2024-05'', ''2024-06'', ''2024-07'', ''2024-08''] \<and>
        map bar_deposits (view_monthlyData v) = [900, 1200, 1000, 1300, 800, 700] \<and>
        map balance (view_balanceData v) = [- 200, 300, 300, 1000, 900, 1000])"
proof -
  from sample_rendered obtain v
    where a: "analysis_summary sample_result = Some sample_summary"
      and r: "ResultsPage (Some sample_result) = Inr (Some v)" by blast
  note c = C7_monthly_series [of sample_flows "()" "()" "()" "()" "()" "()" "()" "()"
      sample_flows sample_result sample_summary v]
  note pg = c [THEN conjunct2, THEN conjunct2, THEN conjunct2, THEN conjunct2,
      THEN conjunct2, THEN conjunct2, THEN conjunct2, THEN conjunct2, THEN conjunct2,
      THEN conjunct2, THEN mp, OF conjI [OF a r]]
  from pg
  have x: "view_monthlyData v =
             monthlyData (last6 (orDefault [] (monthly_flows sample_summary)))"
    and y: "view_balanceData v =
             balanceData (last6 (orDefault [] (monthly_flows sample_summary)))"
    by (rule conjunct1, rule conjunct2)
  have f: "last6 (orDefault [] (monthly_flows sample_summary)) = drop 2 sample_flows"
    by (simp add: sample_summary_def orDefault_def last6_def sample_flows_def)
  have m: "map month (view_monthlyData v) =
          [''2024-03'', ''2024-04'', ''2024-05'', ''2024-06'', ''2024-07'', ''2024-08'']"
    unfolding x f by (simp add: sample_flows_def monthlyData_def)
  have d: "map bar_deposits (view_monthlyData v) = [900, 1200, 1000, 1300, 800, 700]"
    unfolding x f by (simp add: sample_flows_def monthlyData_def)
  have b: "map balance (view_balanceData v) = [- 200, 300, 300, 1000, 900, 1000]"
    unfolding y f by (simp add: sample_flows_def balanceData_def)
  show ?thesis
    by (intro conjI exI [of _ v]) (rule a r m d b)+
qed

text \<open>
  C8, as the code has it. The quotient \<^verbatim>\<open>value / 100\<close> and the product with
  \<^verbatim>\<open>total_withdrawals\<close> are double operations: for \<open>{A: 29}\<close> and total withdrawals 50
  the product is 14.499999999999998, so the amount is 14, while the exact product is 14.5
  and \<^verbatim>\<open>Math.round\<close> of it 15.
\<close>

theorem C8_exact_rounding_counterexample:
  "spendingData [(''A'', 29)] 50 = [\<lparr>category = ''A'', percent = 29, amount = Finite 14\<rparr>] \<and>
   Math_round (Finite (29 / 100 * 50)) = Finite 15"
proof -
  have q: "js_divide (Finite 29) (Finite 100) = Finite (5224175567749775 / 2 ^ 54)"
    using fl_29_100 by (simp add: js_divide_Finite)
  have p: "js_times (Finite (5224175567749775 / 2 ^ 54)) (Finite 50) =
           Finite (8162774324609023 / 2 ^ 49)"
    by (simp only: js_times.simps fl_q29_50)
  have m: "Math_round (Finite (8162774324609023 / 2 ^ 49)) = Finite 14" by simp
  have a: "spendingData [(''A'', 29)] 50 =
           [\<lparr>category = ''A'', percent = 29, amount = Finite 14\<rparr>]"
    by (simp only: spendingData_def list.map prod.case q p m)
  have b: "Math_round (Finite (29 / 100 * 50)) = Finite 15" by simp
  show ?thesis by (intro conjI) (rule a b)+
qed

text \<open>
  C8, amended. The category list follows the entries of \<^verbatim>\<open>spending_by_category\<close> in
  their order; each entry keeps its name and its percentage and gets as amount
  \<^verbatim>\<open>Math.round((value / 100) * total_withdrawals)\<close> in double arithmetic: the quotient is
  the exact quotient rounded to the nearest double, the product the exact product of
  that double and the total rounded to the nearest double (each within \<open>2\<^sup>-\<^sup>5\<^sup>3\<close> of the
  magnitude, or \<open>2\<^sup>-\<^sup>1\<^sup>0\<^sup>7\<^sup>5\<close> in the subnormal range), and \<^verbatim>\<open>Math.round\<close> takes the integer
  nearest to that product, the upper one on a tie. \<open>{A: 50, B: 50}\<close> with total
  withdrawals 1000 gives \<open>[{A, 50, 500}, {B, 50, 500}]\<close>, and no entries give the empty
  list. On a rendered page the list is that of the payload's \<^verbatim>\<open>spending_by_category\<close>
  (no entries when missing) and \<^verbatim>\<open>total_withdrawals\<close> (0 when missing).
\<close>

theorem C8_category_expansion:
  "map category (spendingData pct tw) = map fst pct \<and>
   map percent (spendingData pct tw) = map snd pct \<and>
   map amount (spendingData pct tw) =
     map (\<lambda>(c, x). Math_round (js_times (js_divide (Finite x) (Finite 100)) (Finite tw))) pct \<and>
   js_divide (Finite x) (Finite 100) = fl (x / 100) \<and>
   js_times (Finite q) (Finite tw) = fl (q * tw) \<and>
   (fl z = Finite y \<longrightarrow> \<bar>y - z\<bar> \<le> max (\<bar>z\<bar> / 2 ^ 53) (2 powi (- 1075))) \<and>
   (\<exists>n::int. Math_round (Finite y) = Finite (of_int n) \<and>
       of_int n \<le> y + 1 / 2 \<and> y + 1 / 2 < of_int n + 1) \<and>
   spendingData [(''A'', 50), (''B'', 50)] 1000 =
     [\<lparr>category = ''A'', percent = 50, amount = Finite 500\<rparr>,
      \<lparr>category = ''B'', percent = 50, amount = Finite 500\<rparr>] \<and>
   spendingData [] tw = [] \<and>
   (analysis_summary pl = Some a \<and> ResultsPage (Some pl) = Inr (Some v) \<longrightarrow>
      view_spendingData v =
        spendingData (orDefault [] (spending_by_category pl))
          (orDefault 0 (total_withdrawals a)))"
proof -
  have m1: "map category (spendingData pct tw) = map fst pct"
    by (simp add: spendingData_def split_def comp_def)
  have m2: "map percent (spendingData pct tw) = map snd pct"
    by (simp add: spendingData_def split_def comp_def)
  have m3: "map amount (spendingData pct tw) =
     map (\<lambda>(c, x). Math_round (js_times (js_divide (Finite x) (Finite 100)) (Finite tw))) pct"
    by (simp add: spendingData_def split_def comp_def)
  have d: "js_divide (Finite x) (Finite 100) = fl (x / 100)"
    by (simp add: js_divide_Finite)
  have t: "js_times (Finite q) (Finite tw) = fl (q * tw)"
    by simp
  have er: "fl z = Finite y \<longrightarrow> \<bar>y - z\<bar> \<le> max (\<bar>z\<bar> / 2 ^ 53) (2 powi (- 1075))"
    by (rule impI) (rule fl_error_bound)
  have q: "js_divide (Finite 50) (Finite 100) = Finite (1 / 2)"
    using fl_1_2 by (simp add: js_divide_Finite)
  have "(1 / 2 * 1000 :: rat) = 500" by simp
  then have p: "js_times (Finite (1 / 2)) (Finite 1000) = Finite 500"
    by (simp only: js_times.simps fl_500)
  have r: "Math_round (Finite 500) = Finite 500" by simp
  have e: "spendingData [(''A'', 50), (''B'', 50)] 1000 =
     [\<lparr>category = ''A'', percent = 50, amount = Finite 500\<rparr>,
      \<lparr>category = ''B'', percent = 50, amount = Finite 500\<rparr>]"
    by (simp only: spendingData_def list.map prod.case q p r)
  have n: "spendingData [] tw = []"
    by (simp add: spendingData_def)
  have pg: "analysis_summary pl = Some a \<and> ResultsPage (Some pl) = Inr (Some v) \<longrightarrow>
      view_spendingData v =
        spendingData (orDefault [] (spending_by_category pl))
          (orDefault 0 (total_withdrawals a))"
    using rendered_view(8) [of pl a v] by simp
  show ?thesis
    by (intro conjI) (rule m1 m2 m3 d t er Math_round_Finite e n pg)+
qed

theorem C8_category_expansion_witness:
  "analysis_summary sample_result = Some sample_summary \<and>
   fl (50 / 100) = Finite (1 / 2) \<and>
   (\<exists>v. ResultsPage (Some sample_result) = Inr (Some v) \<and>
        view_spendingData v =
          [\<lparr>category = ''A'', percent = 50, amount = Finite 3500\<rparr>,
           \<lparr>category = ''B'', percent = 50, amount = Finite 3500\<rparr>])"
proof -
  from sample_rendered obtain v
    where a: "analysis_summary sample_result = Some sample_summary"
      and r: "ResultsPage (Some sample_result) = Inr (Some v)" by blast
  have "(50 / 100 :: rat) = 1 / 2" by simp
  then have f: "fl (50 / 100) = Finite (1 / 2)" by (simp only: fl_1_2)
  note c = C8_category_expansion [of "[]" 0 50 "1 / 2" "50 / 100" "1 / 2" sample_result
      sample_summary v]
  note pg = c [THEN conjunct2, THEN conjunct2, THEN conjunct2, THEN conjunct2,
      THEN conjunct2, THEN conjunct2, THEN conjunct2, THEN conjunct2, THEN conjunct2,
      THEN mp, OF conjI [OF a r]]
  have o: "orDefault [] (spending_by_category sample_result) = [(''A'', 50), (''B'', 50)]"
    "orDefault 0 (total_withdrawals sample_summary) = 7000"
    by (simp_all add: sample_result_def sample_summary_def orDefault_def)
  have q: "js_divide (Finite 50) (Finite 100) = Finite (1 / 2)"
    using fl_1_2 by (simp add: js_divide_Finite)
  have "(1 / 2 * 7000 :: rat) = 3500" by simp
  then have p: "js_times (Finite (1 / 2)) (Finite 7000) = Finite 3500"
    by (simp only: js_times.simps fl_3500)
  have m: "Math_round (Finite 3500) = Finite 3500" by simp
  have s: "view_spendingData v =
          [\<lparr>category = ''A'', percent = 50, amount = Finite 3500\<rparr>,
           \<lparr>category = ''B'', percent = 50, amount = Finite 3500\<rparr>]"
    unfolding pg o by (simp only: spendingData_def list.map prod.case q p m)
  show ?thesis
    by (intro conjI exI [of _ v]) (rule a f r s)+
qed

text \<open>
  C9, as the code has it. The quotient and its product with 100 are double operations:
  for a net cash flow of 3 over deposits and withdrawals of 1000 each, the product is
  just below 0.15 and the caption shows 0.1, where the exact quotient gives 0.2. For a net
  cash flow of 0.0015 over a half and a half, the 0.1 shown is more than a twentieth away
  from the exact percentage.
\<close>

theorem C9_exact_quotient_counterexample:
  "netCaption 3 1000 1000 = PercentOfActivity (Finite (1 / 10)) \<and>
   toFixed1 (Finite (3 / (1000 + 1000) * 100)) = Finite (2 / 10) \<and>
   netCaption (3458764513820541 / 2 ^ 61) (1 / 2) (1 / 2) =
     PercentOfActivity (Finite (1 / 10)) \<and>
   (1 / 20 :: rat) < \<bar>1 / 10 - 3458764513820541 / 2 ^ 61 / (1 / 2 + 1 / 2) * 100\<bar>"
proof -
  have t: "toFixed1 (Finite (5404319552844595 / 2 ^ 55)) = Finite (1 / 10)" by simp
  have m: "js_times (Finite (3458764513820541 / 2 ^ 61)) (Finite 100) =
           Finite (5404319552844595 / 2 ^ 55)"
    by (simp only: js_times.simps fl_d0_100)
  have "(1000 + 1000 :: rat) = 2000" by simp
  then have "js_plus (Finite 1000) (Finite 1000) = Finite 2000"
    by (simp only: js_plus.simps fl_2000)
  then have dn: "netDenominator 1000 1000 = Finite 2000"
    by (simp add: netDenominator_def)
  have q: "js_divide (Finite 3) (Finite 2000) = Finite (3458764513820541 / 2 ^ 61)"
    using fl_3_2000 by (simp add: js_divide_Finite)
  have "(3::rat) \<noteq> 0" by simp
  then have a: "netCaption 3 1000 1000 = PercentOfActivity (Finite (1 / 10))"
    by (simp only: netCaption_def if_False dn q m t)
  have b: "toFixed1 (Finite (3 / (1000 + 1000) * 100)) = Finite (2 / 10)" by simp
  have "(1 / 2 + 1 / 2 :: rat) = 1" by simp
  then have "js_plus (Finite (1 / 2)) (Finite (1 / 2)) = Finite 1"
    by (simp only: js_plus.simps fl_1)
  then have dn': "netDenominator (1 / 2) (1 / 2) = Finite 1"
    by (simp add: netDenominator_def)
  have "(3458764513820541 / 2 ^ 61 / 1 :: rat) = 3458764513820541 / 2 ^ 61"
    by (simp only: div_by_1)
  then have q': "js_divide (Finite (3458764513820541 / 2 ^ 61)) (Finite 1) =
                 Finite (3458764513820541 / 2 ^ 61)"
    by (simp only: js_divide_Finite [OF one_neq_zero] fl_d0)
  have "(3458764513820541 / 2 ^ 61 :: rat) \<noteq> 0" by simp
  then have c: "netCaption (3458764513820541 / 2 ^ 61) (1 / 2) (1 / 2) =
                PercentOfActivity (Finite (1 / 10))"
    by (simp only: netCaption_def if_False dn' q' m t)
  have d: "(1 / 20 :: rat) < \<bar>1 / 10 - 3458764513820541 / 2 ^ 61 / (1 / 2 + 1 / 2) * 100\<bar>"
    by simp
  show ?thesis by (intro conjI) (rule a b c d)+
qed

text \<open>
  C9, amended. The caption under the net cash flow is the no-data marker exactly when
  \<^verbatim>\<open>net_cash_flow\<close> is 0. Otherwise it shows, rounded to one decimal, the double product
  with 100 of the double quotient of \<^verbatim>\<open>net_cash_flow\<close> by the denominator (each the exact
  result rounded to the nearest double: within \<open>2\<^sup>-\<^sup>5\<^sup>3\<close> of its magnitude, or \<open>2\<^sup>-\<^sup>1\<^sup>0\<^sup>7\<^sup>5\<close> in the
  subnormal range). The denominator is never a zero (nor \<^verbatim>\<open>NaN\<close>): it is 1 when both
  totals are 0 and whenever their double sum is 0, and that sum otherwise. On a rendered
  page the caption is that of the payload's three fields (each 0 when missing).
\<close>

theorem C9_net_caption:
  "(netCaption net td tw = NoDataMarker \<longleftrightarrow> net = 0) \<and>
   (net \<noteq> 0 \<longrightarrow>
      netCaption net td tw =
        PercentOfActivity
          (toFixed1 (js_times (js_divide (Finite net) (netDenominator td tw)) (Finite 100)))) \<and>
   netDenominator td tw \<noteq> Finite 0 \<and> netDenominator td tw \<noteq> NaN \<and>
   (td = 0 \<and> tw = 0 \<longrightarrow> netDenominator td tw = Finite 1) \<and>
   (fl (td + tw) = Finite 0 \<longrightarrow> netDenominator td tw = Finite 1) \<and>
   (fl (td + tw) \<noteq> Finite 0 \<longrightarrow> netDenominator td tw = fl (td + tw)) \<and>
   (netDenominator td tw = Finite dn \<longrightarrow>
      js_divide (Finite net) (netDenominator td tw) = fl (net / dn)) \<and>
   js_times (Finite q) (Finite 100) = fl (q * 100) \<and>
   (fl z = Finite y \<longrightarrow> \<bar>y - z\<bar> \<le> max (\<bar>z\<bar> / 2 ^ 53) (2 powi (- 1075))) \<and>
   (\<exists>t. toFixed1 (Finite x) = Finite t \<and> \<bar>t - x\<bar> \<le> 1 / 20 \<and>
        (\<bar>x\<bar> < 10 ^ 21 \<longrightarrow> (\<exists>k::int. t = of_int k / 10))) \<and>
   (analysis_summary pl = Some a \<and> ResultsPage (Some pl) = Inr (Some v) \<longrightarrow>
      view_netCaption v =
        netCaption (orDefault 0 (net_cash_flow a)) (orDefault 0 (total_deposits a))
          (orDefault 0 (total_withdrawals a)))"
proof -
  have c1: "netCaption net td tw = NoDataMarker \<longleftrightarrow> net = 0"
    by (simp add: netCaption_def)
  have c2: "net \<noteq> 0 \<longrightarrow>
      netCaption net td tw =
        PercentOfActivity
          (toFixed1 (js_times (js_divide (Finite net) (netDenominator td tw)) (Finite 100)))"
    by (simp add: netCaption_def)
  have s: "js_plus (Finite td) (Finite tw) = fl (td + tw)" by simp
  have d1: "netDenominator td tw \<noteq> Finite 0"
    unfolding netDenominator_def Let_def s by (cases "fl (td + tw)") simp_all
  have d2: "netDenominator td tw \<noteq> NaN"
    unfolding netDenominator_def Let_def s by (cases "fl (td + tw)") simp_all
  have d3: "td = 0 \<and> tw = 0 \<longrightarrow> netDenominator td tw = Finite 1"
    by (simp add: netDenominator_def fl_0)
  have d4: "fl (td + tw) = Finite 0 \<longrightarrow> netDenominator td tw = Finite 1"
    unfolding netDenominator_def Let_def s by simp
  have d5: "fl (td + tw) \<noteq> Finite 0 \<longrightarrow> netDenominator td tw = fl (td + tw)"
    unfolding netDenominator_def Let_def s
    using fl_not_NaN [of "td + tw"] by (cases "fl (td + tw)") simp_all
  have d6: "netDenominator td tw = Finite dn \<longrightarrow>
      js_divide (Finite net) (netDenominator td tw) = fl (net / dn)"
  proof
    assume f: "netDenominator td tw = Finite dn"
    with d1 have "dn \<noteq> 0" by simp
    then show "js_divide (Finite net) (netDenominator td tw) = fl (net / dn)"
      unfolding f by (rule js_divide_Finite)
  qed
  have t: "js_times (Finite q) (Finite 100) = fl (q * 100)" by simp
  have er: "fl z = Finite y \<longrightarrow> \<bar>y - z\<bar> \<le> max (\<bar>z\<bar> / 2 ^ 53) (2 powi (- 1075))"
    by (rule impI) (rule fl_error_bound)
  have pg: "analysis_summary pl = Some a \<and> ResultsPage (Some pl) = Inr (Some v) \<longrightarrow>
      view_netCaption v =
        netCaption (orDefault 0 (net_cash_flow a)) (orDefault 0 (total_deposits a))
          (orDefault 0 (total_withdrawals a))"
    using rendered_view(3) [of pl a v] by simp
  show ?thesis
    by (intro conjI) (rule c1 c2 d1 d2 d3 d4 d5 d6 t er toFixed1_Finite pg)+
qed

theorem C9_net_caption_witness:
  "analysis_summary sample_result = Some sample_summary \<and>
   (\<exists>v. ResultsPage (Some sample_result) = Inr (Some v) \<and>
        view_netCaption v = PercentOfActivity (Finite (67 / 10))) \<and>
   netCaption 5 0 0 = PercentOfActivity (Finite 500) \<and>
   netCaption 0 8000 7000 = NoDataMarker"
proof -
  from sample_rendered obtain v
    where a: "analysis_summary sample_result = Some sample_summary"
      and r: "ResultsPage (Some sample_result) = Inr (Some v)" by blast
  note c = C9_net_caption [of 1000 8000 7000 15000 "4803839602528529 / 2 ^ 56" 0 0 0
      sample_result sample_summary v]
  note c2 = c [THEN conjunct2, THEN conjunct1]
  note c7 = c [THEN conjunct2, THEN conjunct2, THEN conjunct2, THEN conjunct2,
      THEN conjunct2, THEN conjunct2, THEN conjunct1]
  note c8 = c [THEN conjunct2, THEN conjunct2, THEN conjunct2, THEN conjunct2,
      THEN conjunct2, THEN conjunct2, THEN conjunct2, THEN conjunct1]
  note c9 = c [THEN conjunct2, THEN conjunct2, THEN conjunct2, THEN conjunct2,
      THEN conjunct2, THEN conjunct2, THEN conjunct2, THEN conjunct2, THEN conjunct1]
  note pg = c [THEN conjunct2, THEN conjunct2, THEN conjunct2, THEN conjunct2,
      THEN conjunct2, THEN conjunct2, THEN conjunct2, THEN conjunct2, THEN conjunct2,
      THEN conjunct2, THEN conjunct2, THEN mp, OF conjI [OF a r]]
  have f: "orDefault 0 (net_cash_flow sample_summary) = 1000"
    "orDefault 0 (total_deposits sample_summary) = 8000"
    "orDefault 0 (total_withdrawals sample_summary) = 7000"
    by (simp_all add: sample_summary_def orDefault_def)
  have sum: "(8000 + 7000 :: rat) = 15000" by simp
  have nz: "fl (8000 + 7000) \<noteq> Finite 0" by (simp only: sum fl_15000) simp
  from c7 [THEN mp, OF nz] have dn: "netDenominator 8000 7000 = Finite 15000"
    by (simp only: sum fl_15000)
  have "(1000 / 15000 :: rat) = 1 / 15" by simp
  with c8 dn
  have q: "js_divide (Finite 1000) (netDenominator 8000 7000) =
           Finite (4803839602528529 / 2 ^ 56)"
    by (simp only: fl_1_15)
  from c9 have m: "js_times (Finite (4803839602528529 / 2 ^ 56)) (Finite 100) =
           Finite (7505999378950827 / 2 ^ 50)"
    by (simp only: fl_q15_100)
  have t: "toFixed1 (Finite (7505999378950827 / 2 ^ 50)) = Finite (67 / 10)" by simp
  have nz': "(1000::rat) \<noteq> 0" by simp
  from c2 [THEN mp, OF nz']
  have n: "netCaption 1000 8000 7000 = PercentOfActivity (Finite (67 / 10))"
    by (simp only: q m t)
  have s: "view_netCaption v = PercentOfActivity (Finite (67 / 10))"
    unfolding pg f by (rule n)
  note z = C9_net_caption [of 5 0 0 1 5]
  note z2 = z [THEN conjunct2, THEN conjunct1]
  note z5 = z [THEN conjunct2, THEN conjunct2, THEN conjunct2, THEN conjunct2,
      THEN conjunct1]
  note z8 = z [THEN conjunct2, THEN conjunct2, THEN conjunct2, THEN conjunct2,
      THEN conjunct2, THEN conjunct2, THEN conjunct2, THEN conjunct1]
  note z9 = z [THEN conjunct2, THEN conjunct2, THEN conjunct2, THEN conjunct2,
      THEN conjunct2, THEN conjunct2, THEN conjunct2, THEN conjunct2, THEN conjunct1]
  from z5 have dn0: "netDenominator 0 0 = Finite 1" by simp
  have "(5 / 1 :: rat) = 5" by simp
  with z8 dn0 have q0: "js_divide (Finite 5) (netDenominator 0 0) = Finite 5"
    by (simp only: fl_5)
  have "(5 * 100 :: rat) = 500" by simp
  with z9 have m0: "js_times (Finite 5) (Finite 100) = Finite 500"
    by (simp only: fl_500)
  have t0: "toFixed1 (Finite 500) = Finite 500" by simp
  have nz5: "(5::rat) \<noteq> 0" by simp
  from z2 [THEN mp, OF nz5] have k: "netCaption 5 0 0 = PercentOfActivity (Finite 500)"
    by (simp only: q0 m0 t0)
  from C9_net_caption [of 0 8000 7000] have m': "netCaption 0 8000 7000 = NoDataMarker"
    by simp
  show ?thesis
    by (intro conjI exI [of _ v]) (rule a r s k m')+
qed

end
